(* ===== verification/Prelude.thy ===== *)
theory Prelude
  imports Main "HOL-Library.Word"
begin

text \<open>
  What every component of the development shares: the names of the model's basic types
  (machine words, byte strings), the collections of rewrite rules the component theories
  add to, the outcome of a Go operation that may panic or block, the iteration order of a
  Go map, and the generic lemmas on lists, maps and words that the component proofs use.
\<close>

named_theorems go_defs \<open>definitions of the Go library fragment that proofs unfold\<close>
named_theorems keeps \<open>an operation keeps an invariant\<close>

section \<open>Basic types\<close>

type_synonym u8 = "8 word"
type_synonym u64 = "64 word"
type_synonym bytes = "8 word list"

text \<open>
  The outcome of an operation: it returns, it panics with a message, or it never returns
  because it waits for a lock or a channel nobody serves, or loops.
\<close>

datatype 'a outcome = Returns 'a | Panics string | Blocks

text \<open>
  A \<^verbatim>\<open>range\<close> loop over a Go map visits the keys in an unspecified order. An operation
  that ranges over a map takes the order as an argument; \<open>range_order m ks\<close> says that
  \<open>ks\<close> is one of the orders the language allows for \<open>m\<close>.
\<close>

definition range_order :: "('k \<rightharpoonup> 'v) \<Rightarrow> 'k list \<Rightarrow> bool" where
  "range_order m ks \<longleftrightarrow> distinct ks \<and> set ks = dom m"

definition range_values :: "('k \<rightharpoonup> 'v) \<Rightarrow> 'k list \<Rightarrow> 'v list" where
  "range_values m ks = List.map_filter m ks"

lemma range_order_empty [simp]: "range_order Map.empty ks \<longleftrightarrow> ks = []"
  by (auto simp: range_order_def)

lemma set_range_values: "range_order m ks \<Longrightarrow> set (range_values m ks) = ran m"
  by (force simp: range_order_def range_values_def map_filter_def ran_def image_iff)

lemma distinct_range_values:
  assumes "inj_on m (dom m)" "range_order m ks"
  shows "distinct (range_values m ks)"
proof -
  have "filter (\<lambda>k. m k \<noteq> None) ks = ks"
    using assms(2) by (auto simp: range_order_def intro: filter_True)
  then have "range_values m ks = map (\<lambda>k. the (m k)) ks"
    by (simp add: range_values_def map_filter_def comp_def)
  moreover have "inj_on (\<lambda>k. the (m k)) (dom m)"
    using assms(1) by (intro inj_onI) (metis domD inj_onD option.sel)
  ultimately show ?thesis using assms(2) by (simp add: range_order_def distinct_map)
qed

lemma length_range_values: "range_order m ks \<Longrightarrow> length (range_values m ks) = length ks"
proof -
  assume "range_order m ks"
  then have "filter (\<lambda>k. m k \<noteq> None) ks = ks"
    by (auto simp: range_order_def intro: filter_True)
  then show ?thesis by (simp add: range_values_def map_filter_def)
qed

lemma range_order_exists: "finite (dom m) \<Longrightarrow> \<exists>ks. range_order m ks"
  by (auto simp: range_order_def dest: finite_distinct_list)

section \<open>Lists\<close>

lemma count_list_distinct: "distinct xs \<Longrightarrow> x \<in> set xs \<Longrightarrow> count_list xs x = 1"
  by (induction xs) (auto simp: count_list_0_iff)

lemma count_list_replicate [simp]:
  "count_list (replicate n a) b = (if a = b then n else 0)"
  by (induction n) auto

lemma takeWhile_rev_last:
  "c \<notin> set b \<Longrightarrow> takeWhile (\<lambda>x. x \<noteq> c) (rev (a @ c # b)) = rev b"
  by (subst rev_append, subst rev.simps(2), subst append_assoc, subst takeWhile_append2) auto

lemma dropWhile_hd_neq: "dropWhile ((=) c) xs \<noteq> [] \<Longrightarrow> hd (dropWhile ((=) c) xs) \<noteq> c"
  using hd_dropWhile [of "(=) c" xs] by auto

lemma dropWhile_eq_Nil_iff: "dropWhile ((=) c) xs = [] \<longleftrightarrow> (\<forall>x \<in> set xs. x = c)"
  by (auto simp: dropWhile_eq_Nil_conv)

section \<open>Words\<close>

lemma unat_Suc_word: "unat (w :: u64) < 2 ^ 64 - 1 \<Longrightarrow> unat (w + 1) = Suc (unat w)"
  by (simp add: unat_word_ariths)

lemma of_nat_unat_u64: "n < 2 ^ 64 \<Longrightarrow> unat (of_nat n :: u64) = n"
  by (simp add: unat_of_nat take_bit_nat_eq_self)

lemma of_nat_inj_u64:
  "n < 2 ^ 64 \<Longrightarrow> m < 2 ^ 64 \<Longrightarrow> (of_nat n :: u64) = of_nat m \<longleftrightarrow> n = m"
  by (metis of_nat_unat_u64)

lemma unat_drop_bit_7: "unat (drop_bit 7 (x :: u64)) = unat x div 128"
  by (simp add: drop_bit_eq_div unat_div_distrib)

lemma u64_Suc:
  assumes "unat (w :: u64) < 2 ^ 64 - 1"
  shows "w < w + 1" and "unat (w + 1) = Suc (unat w)"
proof -
  show u: "unat (w + 1) = Suc (unat w)" using assms by (rule unat_Suc_word)
  show "w < w + 1" by (simp only: word_less_nat_alt u)
qed

end
