(* ===== verification/GoStd.thy ===== *)
theory GoStd
  imports Prelude
begin

text \<open>
  The fragment of the Go standard library that the sources use: error values, the
  functions of the packages \<^verbatim>\<open>strings\<close> and \<^verbatim>\<open>strconv\<close>, the UTF-8 decoder and the
  upper-case test. A Go string is a sequence of bytes, here a list of \<^typ>\<open>char\<close>.
\<close>

section \<open>Errors\<close>

text \<open>
  An \<^verbatim>\<open>error\<close> interface value is \<open>None\<close> (nil) or \<open>Some e\<close>. The constructors are the
  package-level error variables, which are compared by identity, the string type
  \<^verbatim>\<open>ServerError\<close>, and \<open>NewError\<close> for errors made by \<^verbatim>\<open>errors.New\<close>,
  \<^verbatim>\<open>fmt.Errorf\<close> or a library, which the sources never compare.
\<close>

datatype go_error =
    EOF
  | ErrUnexpectedEOF
  | ErrInvalidServiceName
  | ErrMethodMustBeExported
  | ErrServiceAlreadyDefinedInServer
  | ErrServerCanNotDecodeRequest
  | ErrMethodMustHaveThreeParameters
  | ErrMethodArgsMustBeExported
  | ErrMethodSecondArgMustBePointer
  | ErrMethodReturnValueMustBeAnError
  | ErrShutdown
  | ErrClientConnClosing
  | ErrAddrListEmptyErr
  | ErrAddrDoesNotExistErr
  | ErrNoAvailableAddressErr
  | ErrUnsupportedRegistrationType
  | ErrNoTargetProvided
  | ErrInvalidInvokePoint
  | UnsupportedOperationError
  | ServerError string
  | NewError string

type_synonym err = "go_error option"

text \<open>What an operation on a closed connection reports.\<close>

definition ErrClosed :: go_error where
  "ErrClosed = NewError ''use of closed network connection''"

text \<open>The method \<^verbatim>\<open>Error()\<close>: the text of an error.\<close>

fun error_text :: "go_error \<Rightarrow> string" where
  "error_text EOF = ''EOF''"
| "error_text ErrUnexpectedEOF = ''unexpected EOF''"
| "error_text ErrInvalidServiceName = ''invalid service name, can't be empty''"
| "error_text ErrMethodMustBeExported = ''method must be exported for registration''"
| "error_text ErrServiceAlreadyDefinedInServer = ''service already defined in this server.''"
| "error_text ErrServerCanNotDecodeRequest = ''server cannot decode request''"
| "error_text ErrMethodMustHaveThreeParameters =
     ''method to be exported must has 2 parameters and 1 error return value''"
| "error_text ErrMethodArgsMustBeExported = ''method's args must be exported''"
| "error_text ErrMethodSecondArgMustBePointer = ''method's second args must be pointer''"
| "error_text ErrMethodReturnValueMustBeAnError = ''method's return value must be an error''"
| "error_text ErrShutdown = ''connection is shut down''"
| "error_text ErrClientConnClosing = ''balancer is closed''"
| "error_text ErrAddrListEmptyErr = ''addr list is emtpy''"
| "error_text ErrAddrDoesNotExistErr = ''addr does not exist''"
| "error_text ErrNoAvailableAddressErr = ''no available address''"
| "error_text ErrUnsupportedRegistrationType = ''unsupported registration type''"
| "error_text ErrNoTargetProvided = ''no target provided''"
| "error_text ErrInvalidInvokePoint =
     ''invalid invoke-point, must be: PSM:ServiceName.MethodName''"
| "error_text UnsupportedOperationError = ''unsuppported operation''"
| "error_text (ServerError s) = s"
| "error_text (NewError s) = s"

section \<open>Package strings\<close>

text \<open>\<^verbatim>\<open>strings.Trim(s, " ")\<close> for a cut set of one byte.\<close>

definition strings_Trim :: "char \<Rightarrow> string \<Rightarrow> string" where
  "strings_Trim c s = rev (dropWhile ((=) c) (rev (dropWhile ((=) c) s)))"

text \<open>\<^verbatim>\<open>strings.Split(s, sep)\<close> for a separator of one byte.\<close>

fun strings_Split :: "char \<Rightarrow> string \<Rightarrow> string list" where
  "strings_Split c [] = [[]]"
| "strings_Split c (x # xs) =
     (if x = c then [] # strings_Split c xs
      else (case strings_Split c xs of [] \<Rightarrow> [[x]] | w # ws \<Rightarrow> (x # w) # ws))"

text \<open>\<^verbatim>\<open>strings.LastIndex(s, sep)\<close> for a separator of one byte; \<open>-1\<close> when it does not occur.\<close>

definition strings_LastIndex :: "char \<Rightarrow> string \<Rightarrow> int" where
  "strings_LastIndex c s =
     (if c \<in> set s
      then int (length s) - 1 - int (length (takeWhile (\<lambda>x. x \<noteq> c) (rev s)))
      else -1)"

fun strings_HasPrefix :: "string \<Rightarrow> string \<Rightarrow> bool" where
  "strings_HasPrefix s [] = True"
| "strings_HasPrefix [] (p # ps) = False"
| "strings_HasPrefix (x # xs) (p # ps) = (x = p \<and> strings_HasPrefix xs ps)"

fun strings_Contains :: "string \<Rightarrow> string \<Rightarrow> bool" where
  "strings_Contains [] sub = strings_HasPrefix [] sub"
| "strings_Contains (x # xs) sub =
     (strings_HasPrefix (x # xs) sub \<or> strings_Contains xs sub)"

section \<open>Package strconv\<close>

definition is_digit :: "char \<Rightarrow> bool" where
  "is_digit c \<longleftrightarrow> 48 \<le> (of_char c :: nat) \<and> (of_char c :: nat) \<le> 57"

definition digit_value :: "char \<Rightarrow> nat" where
  "digit_value c = of_char c - 48"

definition digit_char :: "nat \<Rightarrow> char" where
  "digit_char d = char_of (48 + d)"

fun dec_value :: "nat \<Rightarrow> string \<Rightarrow> nat option" where
  "dec_value acc [] = Some acc"
| "dec_value acc (c # cs) =
     (if is_digit c then dec_value (10 * acc + digit_value c) cs else None)"

text \<open>\<^verbatim>\<open>strconv.ParseUint(s, 10, 64)\<close>: \<open>None\<close> is a syntax or a range error.\<close>

definition strconv_ParseUint :: "string \<Rightarrow> u64 option" where
  "strconv_ParseUint s =
     (if s = [] then None
      else case dec_value 0 s of None \<Rightarrow> None
           | Some n \<Rightarrow> if n < 2 ^ 64 then Some (of_nat n) else None)"

text \<open>\<^verbatim>\<open>strconv.Atoi\<close> on a 64-bit machine: an optional sign, then decimal digits.\<close>

definition strconv_Atoi :: "string \<Rightarrow> int option" where
  "strconv_Atoi s =
     (let neg = (s \<noteq> [] \<and> hd s = CHR ''-'');
          ds = (if s \<noteq> [] \<and> (hd s = CHR ''-'' \<or> hd s = CHR ''+'') then tl s else s)
      in if ds = [] then None
         else case dec_value 0 ds of None \<Rightarrow> None
              | Some n \<Rightarrow> if neg then (if n \<le> 2 ^ 63 then Some (- int n) else None)
                          else (if n < 2 ^ 63 then Some (int n) else None))"

text \<open>\<^verbatim>\<open>strconv.FormatUint(n, 10)\<close> and \<^verbatim>\<open>strconv.Itoa\<close>.\<close>

fun dec_digits :: "nat \<Rightarrow> string" where
  "dec_digits n = (if n < 10 then [digit_char n] else dec_digits (n div 10) @ [digit_char (n mod 10)])"

declare dec_digits.simps [simp del]

definition strconv_FormatUint :: "u64 \<Rightarrow> string" where
  "strconv_FormatUint w = dec_digits (unat w)"

definition strconv_Itoa :: "int \<Rightarrow> string" where
  "strconv_Itoa i = (if i < 0 then CHR ''-'' # dec_digits (nat (- i)) else dec_digits (nat i))"

section \<open>Packages unicode/utf8 and unicode\<close>

text \<open>
  \<^verbatim>\<open>utf8.DecodeRuneInString\<close>, the rune only: the code point of the first, well-formed
  encoding, or \<open>RuneError\<close> (65533) for an empty string or an ill-formed prefix.
\<close>

definition RuneError :: nat where
  "RuneError = 65533"

definition cont_byte :: "nat \<Rightarrow> nat \<Rightarrow> nat \<Rightarrow> bool" where
  "cont_byte lo hi b \<longleftrightarrow> lo \<le> b \<and> b \<le> hi"

definition utf8_lo :: "nat \<Rightarrow> nat" where
  "utf8_lo b0 = (if b0 = 224 then 160 else if b0 = 240 then 144 else 128)"

definition utf8_hi :: "nat \<Rightarrow> nat" where
  "utf8_hi b0 = (if b0 = 237 then 159 else if b0 = 244 then 143 else 191)"

fun decode_rune :: "nat list \<Rightarrow> nat" where
  "decode_rune [] = RuneError"
| "decode_rune (b0 # bs) =
     (if b0 < 128 then b0
      else if b0 < 194 \<or> 244 < b0 then RuneError
      else case bs of
        [] \<Rightarrow> RuneError
      | b1 # bs1 \<Rightarrow>
          if \<not> cont_byte (utf8_lo b0) (utf8_hi b0) b1 then RuneError
          else if b0 < 224 then (b0 - 192) * 64 + (b1 - 128)
          else (case bs1 of
            [] \<Rightarrow> RuneError
          | b2 # bs2 \<Rightarrow>
              if \<not> cont_byte 128 191 b2 then RuneError
              else if b0 < 240 then (b0 - 224) * 4096 + (b1 - 128) * 64 + (b2 - 128)
              else (case bs2 of
                [] \<Rightarrow> RuneError
              | b3 # _ \<Rightarrow>
                  if \<not> cont_byte 128 191 b3 then RuneError
                  else (b0 - 240) * 262144 + (b1 - 128) * 4096 + (b2 - 128) * 64 + (b3 - 128))))"

definition utf8_DecodeRuneInString :: "string \<Rightarrow> nat" where
  "utf8_DecodeRuneInString s = decode_rune (map of_char (take 4 s))"

text \<open>
  \<^verbatim>\<open>unicode.IsUpper\<close>: the Latin-1 property table is written out; above it the library
  looks the rune up in its table of upper-case letters, the argument \<open>upper\<close>.
\<close>

definition unicode_IsUpper :: "(nat \<Rightarrow> bool) \<Rightarrow> nat \<Rightarrow> bool" where
  "unicode_IsUpper upper r =
     (if r \<le> 255 then 65 \<le> r \<and> r \<le> 90 \<or> 192 \<le> r \<and> r \<le> 214 \<or> 216 \<le> r \<and> r \<le> 222
      else upper r)"

section \<open>Lemmas\<close>

subsection \<open>strings\<close>

lemma strings_Trim_Nil_iff: "strings_Trim c s = [] \<longleftrightarrow> (\<forall>x \<in> set s. x = c)"
proof (cases "dropWhile ((=) c) s = []")
  case True
  then show ?thesis by (metis dropWhile.simps(1) dropWhile_eq_Nil_iff rev.simps(1) strings_Trim_def)
next
  case False
  have "hd (dropWhile ((=) c) s) \<in> set (dropWhile ((=) c) s)"
    and "hd (dropWhile ((=) c) s) \<noteq> c"
    using False dropWhile_hd_neq by simp_all
  with False show ?thesis
    unfolding strings_Trim_def rev_is_Nil_conv dropWhile_eq_Nil_iff
    by (metis dropWhile_eq_Nil_iff set_rev)
qed

lemma strings_Split_nonempty [simp]: "strings_Split c s \<noteq> []"
  by (induction s) (auto split: list.splits)

lemma length_strings_Split: "length (strings_Split c s) = Suc (count_list s c)"
  by (induction s) (auto split: list.splits)

lemma strings_Split_no_sep: "c \<notin> set s \<Longrightarrow> strings_Split c s = [s]"
  by (induction s) auto

lemma strings_Split_append:
  "c \<notin> set a \<Longrightarrow> strings_Split c (a @ c # b) = a # strings_Split c b"
  by (induction a) auto

lemma strings_Split_pieces: "\<forall>w \<in> set (strings_Split c s). c \<notin> set w"
  by (induction s) (auto split: list.splits)

lemma hd_strings_Split: "hd (strings_Split c s) = takeWhile (\<lambda>x. x \<noteq> c) s"
proof (induction s)
  case (Cons x xs)
  then show ?case by (cases "strings_Split c xs") auto
qed simp

lemma strings_LastIndex_append:
  "c \<notin> set b \<Longrightarrow> strings_LastIndex c (a @ c # b) = int (length a)"
  by (simp add: strings_LastIndex_def takeWhile_rev_last del: rev.simps(2) rev_append)

lemma strings_LastIndex_none: "c \<notin> set s \<Longrightarrow> strings_LastIndex c s = -1"
  by (simp add: strings_LastIndex_def)

lemma strings_HasPrefix_iff: "strings_HasPrefix s p \<longleftrightarrow> (\<exists>t. s = p @ t)"
  by (induction s p rule: strings_HasPrefix.induct) auto

lemma strings_Contains_iff: "strings_Contains s sub \<longleftrightarrow> (\<exists>a b. s = a @ sub @ b)"
proof (induction s)
  case Nil
  show ?case by (auto simp: strings_HasPrefix_iff)
next
  case (Cons x xs)
  show ?case
    unfolding strings_Contains.simps Cons.IH strings_HasPrefix_iff
    by (metis append_Cons append_Nil neq_Nil_conv list.inject)
qed

subsection \<open>strconv\<close>

lemma digit_char_simps:
  assumes "d < 10"
  shows "is_digit (digit_char d)" and "digit_value (digit_char d) = d"
  using assms by (simp_all add: is_digit_def digit_value_def digit_char_def)

lemma dec_value_append:
  "dec_value acc (xs @ ys) = Option.bind (dec_value acc xs) (\<lambda>n. dec_value n ys)"
  by (induction xs arbitrary: acc) auto

lemma dec_digits_nonempty [simp]: "dec_digits n \<noteq> []"
  by (subst dec_digits.simps) simp

lemma dec_value_dec_digits: "dec_value 0 (dec_digits n) = Some n"
proof (induction n rule: dec_digits.induct)
  case (1 n)
  show ?case
  proof (cases "n < 10")
    case True
    then show ?thesis by (subst dec_digits.simps) (simp add: digit_char_simps)
  next
    case False
    with "1.IH" show ?thesis
      by (subst dec_digits.simps) (simp add: dec_value_append digit_char_simps)
  qed
qed

lemma ParseUint_FormatUint [simp]: "strconv_ParseUint (strconv_FormatUint w) = Some w"
  using unsigned_less [of w, where ?'a = nat]
  by (simp add: strconv_ParseUint_def strconv_FormatUint_def dec_value_dec_digits)

lemma dec_digits_digits: "\<forall>c \<in> set (dec_digits n). is_digit c"
proof (induction n rule: dec_digits.induct)
  case (1 n)
  then show ?case
    by (cases "n < 10"; subst dec_digits.simps) (auto simp: digit_char_simps)
qed

lemma strconv_Itoa_nonempty [simp]: "strconv_Itoa i \<noteq> []"
  by (simp add: strconv_Itoa_def)

lemma Atoi_dec_digits: "n < 2 ^ 63 \<Longrightarrow> strconv_Atoi (dec_digits n) = Some (int n)"
proof -
  assume n: "n < 2 ^ 63"
  have "is_digit (hd (dec_digits n))"
    using dec_digits_digits [of n] by (meson dec_digits_nonempty hd_in_set)
  then have "hd (dec_digits n) \<noteq> CHR ''-''" "hd (dec_digits n) \<noteq> CHR ''+''"
    by (auto simp: is_digit_def)
  with n show ?thesis
    by (simp add: strconv_Atoi_def dec_value_dec_digits)
qed

subsection \<open>unicode\<close>

lemma decode_rune_ascii: "b0 < 128 \<Longrightarrow> decode_rune (b0 # bs) = b0"
  by simp

end
