(* ===== verification/Utils.thy ===== *)
theory Utils
  imports GoStd
begin

text \<open>
  The helpers of \<^verbatim>\<open>src/utils.go\<close>: the export tests used when a service is registered,
  the local IPv4 address, the concatenation of an error slice, the MD5 helper around its
  package-level hasher, and the translation of an invoke point
  \<^verbatim>\<open>PSM:ServiceName.MethodName\<close> to a registry path.
\<close>

section \<open>Reflected types\<close>

text \<open>
  What the sources read of a \<^verbatim>\<open>reflect.Type\<close>: its name (empty for an unnamed type), its
  package path (empty for a predeclared or an unnamed type) and its kind, with the element
  type of a pointer.
\<close>

datatype rtype = RType (Name: string) (PkgPath: string) (Kind: rkind)
  and rkind = Ptr rtype | Map | Slice | Struct | Interface | OtherKind

fun is_Ptr :: "rtype \<Rightarrow> bool" where
  "is_Ptr (RType n p (Ptr t)) = True"
| "is_Ptr _ = False"

text \<open>\<^verbatim>\<open>t.Elem()\<close>: it panics on a kind with no element type; the callers ask a pointer only.\<close>

fun Elem :: "rtype \<Rightarrow> rtype option" where
  "Elem (RType n p (Ptr t)) = Some t"
| "Elem _ = None"

section \<open>Definitions\<close>

definition isExported :: "(nat \<Rightarrow> bool) \<Rightarrow> string \<Rightarrow> bool" where
  "isExported upper methodName = unicode_IsUpper upper (utf8_DecodeRuneInString methodName)"

fun isExportedOrBuiltinType :: "(nat \<Rightarrow> bool) \<Rightarrow> rtype \<Rightarrow> bool" where
  "isExportedOrBuiltinType upper (RType n p (Ptr t)) = isExportedOrBuiltinType upper t"
| "isExportedOrBuiltinType upper (RType n p k) = (isExported upper n \<or> p = [])"

text \<open>
  An interface address as \<^verbatim>\<open>net.InterfaceAddrs\<close> returns it: an \<^verbatim>\<open>*net.IPNet\<close> with its
  IP (4 or 16 bytes), or another implementation of \<^verbatim>\<open>net.Addr\<close>.
\<close>

datatype net_addr = IPNet "nat list" | OtherAddr

definition ip_To4 :: "nat list \<Rightarrow> nat list option" where
  "ip_To4 ip =
     (if length ip = 4 then Some ip
      else if length ip = 16 \<and> take 12 ip = replicate 10 0 @ [255, 255] then Some (drop 12 ip)
      else None)"

definition ip_IsLoopback :: "nat list \<Rightarrow> bool" where
  "ip_IsLoopback ip =
     (case ip_To4 ip of Some ip4 \<Rightarrow> hd ip4 = 127 | None \<Rightarrow> ip = replicate 15 0 @ [1])"

text \<open>\<^verbatim>\<open>IP.String()\<close> of an address that has a 4-byte form: dotted decimal.\<close>

fun ip4_String :: "nat list \<Rightarrow> string" where
  "ip4_String [] = []"
| "ip4_String [b] = dec_digits b"
| "ip4_String (b # bs) = dec_digits b @ ''.'' @ ip4_String bs"

fun scan_addrs :: "net_addr list \<Rightarrow> string" where
  "scan_addrs [] = []"
| "scan_addrs (IPNet ip # as) =
     (if \<not> ip_IsLoopback ip
      then (case ip_To4 ip of Some ip4 \<Rightarrow> ip4_String ip4 | None \<Rightarrow> scan_addrs as)
      else scan_addrs as)"
| "scan_addrs (OtherAddr # as) = scan_addrs as"

definition getLocalIPV4 :: "go_error + net_addr list \<Rightarrow> string \<times> err" where
  "getLocalIPV4 interfaceAddrs =
     (case interfaceAddrs of Inl e \<Rightarrow> ([], Some e) | Inr as \<Rightarrow> (scan_addrs as, None))"

definition WrapArrayErrs :: "go_error list \<Rightarrow> err" where
  "WrapArrayErrs errs =
     (let rs = concat (map (\<lambda>e. error_text e @ [CHR 0x0A]) errs)
      in if length (strings_Trim CHR '' '' rs) = 0 then None else Some (NewError rs))"

text \<open>
  \<^verbatim>\<open>MD5Of\<close> works on the package-level hasher \<^verbatim>\<open>Md5Hasher\<close>, whose state is the text
  written since the last reset; \<open>md5\<close> is the digest. The deferred reset runs after the sum.
\<close>

definition hex_char :: "nat \<Rightarrow> char" where
  "hex_char d = (if d < 10 then char_of (48 + d) else char_of (87 + d))"

definition hex_EncodeToString :: "bytes \<Rightarrow> string" where
  "hex_EncodeToString bs = concat (map (\<lambda>b. [hex_char (unat b div 16), hex_char (unat b mod 16)]) bs)"

definition MD5Of :: "(string \<Rightarrow> bytes) \<Rightarrow> string \<Rightarrow> string \<Rightarrow> string \<times> string" where
  "MD5Of md5 hasher txt =
     (let hasher' = hasher @ txt
      in (hex_EncodeToString (md5 hasher'), []))"

definition TransformInvokePointToPath :: "string \<Rightarrow> go_error + string" where
  "TransformInvokePointToPath invokePoint =
     (let sp = strings_Split CHR '':'' invokePoint
      in if length sp \<noteq> 2 then Inl ErrInvalidInvokePoint
         else let psm = sp ! 0; sName = strings_Split CHR ''.'' (sp ! 1) ! 0
              in Inr (''/'' @ psm @ ''/'' @ sName))"

section \<open>Lemmas\<close>


lemma isExported_Nil: "\<not> upper RuneError \<Longrightarrow> \<not> isExported upper []"
  by (simp add: isExported_def utf8_DecodeRuneInString_def unicode_IsUpper_def RuneError_def)

lemma isExportedOrBuiltinType_Elem:
  "Elem t = Some u \<Longrightarrow> isExportedOrBuiltinType upper t = isExportedOrBuiltinType upper u"
  by (cases t rule: Elem.cases) auto

lemma WrapArrayErrs_eq:
  "WrapArrayErrs errs =
     (if errs = [] then None
      else Some (NewError (concat (map (\<lambda>e. error_text e @ [CHR 0x0A]) errs))))"
proof (cases errs)
  case Nil
  then show ?thesis by (simp add: WrapArrayErrs_def strings_Trim_def)
next
  case (Cons e es)
  have "strings_Trim CHR '' '' (concat (map (\<lambda>e. error_text e @ [CHR 0x0A]) errs)) \<noteq> []"
    by (auto simp: strings_Trim_Nil_iff Cons)
  with Cons show ?thesis by (simp add: WrapArrayErrs_def Let_def)
qed

lemma Split_nth_0: "strings_Split c s ! 0 = takeWhile (\<lambda>x. x \<noteq> c) s"
  using hd_strings_Split [of c s] by (simp add: hd_conv_nth)

lemma Split_two:
  assumes "count_list s c = 1"
  shows "strings_Split c s = [takeWhile (\<lambda>x. x \<noteq> c) s, tl (dropWhile (\<lambda>x. x \<noteq> c) s)]"
proof -
  have "c \<in> set s" using assms by (metis count_list_0_iff zero_neq_one)
  then obtain a b where s: "s = a @ c # b" "c \<notin> set a" by (auto dest: split_list_first)
  then have "c \<notin> set b" using assms by (simp add: count_list_0_iff)
  moreover have "takeWhile (\<lambda>x. x \<noteq> c) s = a" "dropWhile (\<lambda>x. x \<noteq> c) s = c # b"
    using s by (auto simp: takeWhile_append dropWhile_append3)
  ultimately show ?thesis using s by (simp add: strings_Split_append strings_Split_no_sep)
qed

section \<open>Properties\<close>

text \<open>
  C40. \<^verbatim>\<open>TransformInvokePointToPath\<close> on every string: an invoke point with exactly one colon
  becomes the path of the part before the colon and the part after it up to its first dot;
  every other string is refused.
\<close>

theorem TransformInvokePointToPath_spec:
  "TransformInvokePointToPath ip =
     (if count_list ip CHR '':'' = 1
      then Inr (''/'' @ takeWhile (\<lambda>x. x \<noteq> CHR '':'') ip @ ''/''
             @ takeWhile (\<lambda>x. x \<noteq> CHR ''.'') (tl (dropWhile (\<lambda>x. x \<noteq> CHR '':'') ip)))
      else Inl ErrInvalidInvokePoint)"
  using Split_two [of ip "CHR '':''"]
  by (simp add: TransformInvokePointToPath_def length_strings_Split Split_nth_0 Let_def)

end
