(* ===== verification/Services.thy ===== *)
theory Services
  imports Utils
begin

text \<open>
  The services of \<^verbatim>\<open>src/service.go\<close>: reflected methods, the methods a service publishes
  (\<^verbatim>\<open>registerMethods\<close>) and the endpoint under which a service is registered. The
  invocation of a method, \<^verbatim>\<open>Service.call\<close>, is part of the server (theory \<open>RpcServer\<close>).
\<close>

section \<open>Data\<close>

definition ServiceRootPath :: string where
  "ServiceRootPath = ''/byterpc/services''"

definition ConsulServiceRootPath :: string where
  "ConsulServiceRootPath = ''byterpc/services''"

definition ZKServiceRootPath :: string where
  "ZKServiceRootPath = ''byterpc/services''"

text \<open>
  A \<^verbatim>\<open>reflect.Method\<close> of the receiver's type: its name, its package path (empty for an
  exported method) and the types of its inputs, the receiver first, and outputs.
\<close>

record rmethod =
  rm_Name :: string
  rm_PkgPath :: string
  rm_In :: "rtype list"
  rm_Out :: "rtype list"

definition typeOfError :: rtype where
  "typeOfError = RType ''error'' [] Interface"

record Method =
  method_of :: rmethod
  ArgType :: rtype
  ReplyType :: rtype
  numCalls :: u64

text \<open>
  A receiver, as \<^verbatim>\<open>interface{}\<close>: its type, whether it is a nil pointer, and the method set
  of its type, in the order of \<^verbatim>\<open>reflect.Type.Method\<close>.
\<close>

record receiver =
  recv_type :: rtype
  recv_nil :: bool
  recv_methods :: "rmethod list"

record Service =
  svc_name :: string
  svc_aliasName :: string
  svc_receiver :: receiver
  svc_methods :: "string \<rightharpoonup> Method"

record Endpoint =
  PSM :: string
  Address :: string
  ServiceName :: string
  Path :: string
  MetaData :: "(string \<rightharpoonup> string) option"

section \<open>registerMethods\<close>

text \<open>The loop over the method set with the map built so far.\<close>

fun registerMethods_loop ::
  "(nat \<Rightarrow> bool) \<Rightarrow> bool \<Rightarrow> rmethod list \<Rightarrow> (string \<rightharpoonup> Method) \<Rightarrow> go_error + (string \<rightharpoonup> Method)" where
  "registerMethods_loop upper skipError [] methods = Inr methods"
| "registerMethods_loop upper skipError (m # ms) methods =
     (let continue = registerMethods_loop upper skipError ms methods;
          argType = rm_In m ! 1; replyType = rm_In m ! 2
      in if rm_PkgPath m \<noteq> [] then continue
         else if length (rm_In m) \<noteq> 3 then
           (if skipError then continue else Inl ErrMethodMustHaveThreeParameters)
         else if \<not> isExportedOrBuiltinType upper argType then
           (if skipError then continue else Inl ErrMethodArgsMustBeExported)
         else if \<not> is_Ptr replyType then
           (if skipError then continue else Inl ErrMethodSecondArgMustBePointer)
         else if \<not> isExportedOrBuiltinType upper replyType then
           (if skipError then continue else Inl ErrMethodArgsMustBeExported)
         else if length (rm_Out m) \<noteq> 1 then
           (if skipError then continue else Inl ErrMethodReturnValueMustBeAnError)
         else if rm_Out m ! 0 \<noteq> typeOfError then
           (if skipError then continue else Inl ErrMethodReturnValueMustBeAnError)
         else registerMethods_loop upper skipError ms
           (methods(rm_Name m \<mapsto> \<lparr>method_of = m, ArgType = argType, ReplyType = replyType, numCalls = 0\<rparr>)))"

definition registerMethods ::
  "(nat \<Rightarrow> bool) \<Rightarrow> rmethod list \<Rightarrow> bool \<Rightarrow> go_error + (string \<rightharpoonup> Method)" where
  "registerMethods upper typ skipError = registerMethods_loop upper skipError typ Map.empty"

section \<open>Specification\<close>

text \<open>
  The conditions the documentation of \<^verbatim>\<open>RegisterService\<close> lists: an exported method with two
  arguments of exported or builtin type, the second a pointer, and one result of type
  \<^verbatim>\<open>error\<close>.
\<close>

definition exported_method :: "rmethod \<Rightarrow> bool" where
  "exported_method m \<longleftrightarrow> rm_PkgPath m = []"

definition suitable :: "(nat \<Rightarrow> bool) \<Rightarrow> rmethod \<Rightarrow> bool" where
  "suitable upper m \<longleftrightarrow>
     (\<exists>r a p t. rm_In m = [r, a, p] \<and> isExportedOrBuiltinType upper a
        \<and> Elem p = Some t \<and> isExportedOrBuiltinType upper p) \<and> rm_Out m = [typeOfError]"

definition method_entry :: "rmethod \<Rightarrow> Method" where
  "method_entry m = \<lparr>method_of = m, ArgType = rm_In m ! 1, ReplyType = rm_In m ! 2, numCalls = 0\<rparr>"

definition published :: "(nat \<Rightarrow> bool) \<Rightarrow> rmethod list \<Rightarrow> (string \<rightharpoonup> Method)" where
  "published upper ms = map_of (rev (map (\<lambda>m. (rm_Name m, method_entry m))
     (filter (\<lambda>m. exported_method m \<and> suitable upper m) ms)))"

section \<open>Lemmas\<close>

lemma is_Ptr_Elem: "is_Ptr t \<longleftrightarrow> (\<exists>u. Elem t = Some u)"
  by (cases t rule: is_Ptr.cases) auto

lemma length_3_conv: "length xs = 3 \<longleftrightarrow> (\<exists>a b c. xs = [a, b, c])"
  by (auto simp: numeral_3_eq_3 length_Suc_conv)

lemma suitable_iff:
  "suitable upper m \<longleftrightarrow> length (rm_In m) = 3 \<and> isExportedOrBuiltinType upper (rm_In m ! 1)
     \<and> is_Ptr (rm_In m ! 2) \<and> isExportedOrBuiltinType upper (rm_In m ! 2)
     \<and> length (rm_Out m) = 1 \<and> rm_Out m ! 0 = typeOfError"
  by (auto simp: suitable_def length_3_conv is_Ptr_Elem length_Suc_conv)

lemma registerMethods_loop_hidden:
  "\<not> exported_method m \<Longrightarrow>
   registerMethods_loop upper skipError (m # ms) methods = registerMethods_loop upper skipError ms methods"
  by (simp add: exported_method_def Let_def)

lemma registerMethods_loop_suitable:
  "exported_method m \<Longrightarrow> suitable upper m \<Longrightarrow>
   registerMethods_loop upper skipError (m # ms) methods =
     registerMethods_loop upper skipError ms (methods(rm_Name m \<mapsto> method_entry m))"
  by (simp add: exported_method_def suitable_iff method_entry_def Let_def)

lemma registerMethods_loop_skipped:
  "\<not> suitable upper m \<Longrightarrow>
   registerMethods_loop upper True (m # ms) methods = registerMethods_loop upper True ms methods"
  by (simp add: suitable_iff Let_def)

lemma registerMethods_loop_unsuitable:
  "exported_method m \<Longrightarrow> \<not> suitable upper m \<Longrightarrow>
   \<exists>e. registerMethods_loop upper False (m # ms) methods = Inl e \<and>
       e \<in> {ErrMethodMustHaveThreeParameters, ErrMethodArgsMustBeExported,
            ErrMethodSecondArgMustBePointer, ErrMethodReturnValueMustBeAnError}"
  by (simp add: exported_method_def suitable_iff Let_def)

declare registerMethods_loop.simps(2) [simp del]

lemma published_Nil [simp]: "published upper [] = Map.empty"
  by (simp add: published_def)

lemma map_add_published_Cons:
  "methods ++ published upper (m # ms) =
     (if exported_method m \<and> suitable upper m then methods(rm_Name m \<mapsto> method_entry m) else methods)
       ++ published upper ms"
  by (simp add: published_def)

lemma registerMethods_loop_skip:
  "registerMethods_loop upper True ms methods = Inr (methods ++ published upper ms)"
proof (induction ms arbitrary: methods)
  case (Cons m ms)
  then show ?case
    by (cases "exported_method m"; cases "suitable upper m")
      (simp_all add: map_add_published_Cons registerMethods_loop_hidden registerMethods_loop_suitable
        registerMethods_loop_skipped del: registerMethods_loop.simps fun_upd_apply)
qed simp

lemma registerMethods_loop_strict:
  "(if \<forall>m \<in> set ms. exported_method m \<longrightarrow> suitable upper m
    then registerMethods_loop upper False ms methods = Inr (methods ++ published upper ms)
    else \<exists>e. registerMethods_loop upper False ms methods = Inl e)"
proof (induction ms arbitrary: methods)
  case (Cons m ms)
  show ?case
  proof (cases "exported_method m \<and> \<not> suitable upper m")
    case True
    then show ?thesis using registerMethods_loop_unsuitable [of m upper ms methods] by auto
  next
    case False
    then have "registerMethods_loop upper False (m # ms) methods =
        registerMethods_loop upper False ms
          (if exported_method m \<and> suitable upper m then methods(rm_Name m \<mapsto> method_entry m) else methods)"
      by (auto simp: registerMethods_loop_hidden registerMethods_loop_suitable)
    then show ?thesis
      using Cons.IH [of "if exported_method m \<and> suitable upper m
          then methods(rm_Name m \<mapsto> method_entry m) else methods"] False
      by (simp only: map_add_published_Cons list.set ball_simps) (simp split: if_splits)
  qed
qed simp

section \<open>Properties\<close>

text \<open>
  C27. \<^verbatim>\<open>registerMethods\<close> as the server calls it publishes exactly the suitable exported
  methods, each under its name with a call count of zero, when every exported method of
  the receiver is suitable; a single exported method that is not makes it return one of the
  four errors and no methods at all.
\<close>

theorem registerMethods_strict:
  "(if \<forall>m \<in> set ms. exported_method m \<longrightarrow> suitable upper m
    then registerMethods upper ms False = Inr (published upper ms)
    else \<exists>e. registerMethods upper ms False = Inl e)"
  using registerMethods_loop_strict [of ms upper Map.empty] by (simp add: registerMethods_def)

definition demo_method :: rmethod where
  "demo_method = \<lparr>rm_Name = ''Add'', rm_PkgPath = [],
     rm_In = [RType [] [] (Ptr (RType ''Arith'' ''main'' Struct)), RType ''Args'' ''main'' Struct,
              RType [] [] (Ptr (RType ''int'' [] OtherKind))], rm_Out = [typeOfError]\<rparr>"

definition ascii_upper :: "nat \<Rightarrow> bool" where
  "ascii_upper r \<longleftrightarrow> 65 \<le> r \<and> r \<le> 90"

lemma demo_suitable: "exported_method demo_method" "suitable ascii_upper demo_method"
  by (simp_all add: exported_method_def suitable_iff demo_method_def isExported_def
      utf8_DecodeRuneInString_def decode_rune_ascii unicode_IsUpper_def ascii_upper_def)

theorem registerMethods_strict_witness:
  "registerMethods ascii_upper [demo_method] False = Inr [''Add'' \<mapsto> method_entry demo_method]
   \<and> (\<exists>e. registerMethods ascii_upper [demo_method, demo_method\<lparr>rm_Out := []\<rparr>] False = Inl e)"
proof -
  have bad: "exported_method (demo_method\<lparr>rm_Out := []\<rparr>)" "\<not> suitable ascii_upper (demo_method\<lparr>rm_Out := []\<rparr>)"
    by (simp_all add: exported_method_def suitable_def demo_method_def)
  have "published ascii_upper [demo_method] = [''Add'' \<mapsto> method_entry demo_method]"
    by (simp add: published_def demo_suitable) (simp add: demo_method_def)
  then show ?thesis
    using registerMethods_strict [of "[demo_method]" ascii_upper]
      registerMethods_strict [of "[demo_method, demo_method\<lparr>rm_Out := []\<rparr>]" ascii_upper] bad
    by (simp add: demo_suitable)
qed

text \<open>
  With \<^verbatim>\<open>skipError\<close> set, \<^verbatim>\<open>registerMethods\<close> never fails and publishes exactly the
  suitable exported methods of the receiver.
\<close>

lemma registerMethods_skip:
  "registerMethods upper ms True = Inr (published upper ms)"
  by (simp add: registerMethods_def registerMethods_loop_skip)

end
