(* ===== verification/Messages.thy ===== *)
theory Messages
  imports GoStd
begin

text \<open>
  The request and response headers of \<^verbatim>\<open>src/request.go\<close> and \<^verbatim>\<open>src/response.go\<close>. The
  field \<^verbatim>\<open>next\<close> links a header into the server's free list; it is an address in the
  heap of headers (theory \<open>Pools\<close>).
\<close>

type_synonym ptr = nat

record RpcRequest =
  req_ServiceMethod :: string
  req_Seq :: u64
  req_next :: "ptr option"

record RpcResponse =
  resp_ServiceMethod :: string
  resp_Seq :: u64
  resp_Error :: string
  resp_next :: "ptr option"

text \<open>The zero values \<^verbatim>\<open>RpcRequest{}\<close> and \<^verbatim>\<open>RpcResponse{}\<close>.\<close>

definition zero_RpcRequest :: RpcRequest where
  "zero_RpcRequest = \<lparr>req_ServiceMethod = [], req_Seq = 0, req_next = None\<rparr>"

definition zero_RpcResponse :: RpcResponse where
  "zero_RpcResponse = \<lparr>resp_ServiceMethod = [], resp_Seq = 0, resp_Error = [], resp_next = None\<rparr>"

end
