(* ===== verification/Plugins.thy ===== *)
theory Plugins
  imports Services Messages
begin

text \<open>
  The plugin managers of \<^verbatim>\<open>src/plugin.go\<close>. A plugin is a value with a name, a type and the
  hooks of the interfaces it implements; hooks may change the plugins' own world (of type
  \<open>'w\<close>) and the header and body they are given. The manager keeps the plugins of each type
  in a map and runs a hook on all of them.
\<close>

section \<open>Plugins\<close>

type_synonym PluginType = u8

definition ServerRWPluginType :: PluginType where "ServerRWPluginType = 1"
definition ServerConnPluginType :: PluginType where "ServerConnPluginType = 2"
definition ServiceRegistrationPluginType :: PluginType where "ServiceRegistrationPluginType = 3"
definition ClientRWPluginType :: PluginType where "ClientRWPluginType = 4"
definition ClientMonitorPluginType :: PluginType where "ClientMonitorPluginType = 5"
definition ServerMonitorPluginType :: PluginType where "ServerMonitorPluginType = 6"

lemmas plugin_types =
  ServerRWPluginType_def ServerConnPluginType_def ServiceRegistrationPluginType_def
  ClientRWPluginType_def ClientMonitorPluginType_def ServerMonitorPluginType_def

text \<open>
  A hook on a subject \<open>'x\<close>: a request header, a request with its body, a response header, a
  response with its body, a connection (\<^typ>\<open>nat\<close>), or an endpoint.
\<close>

type_synonym ('w, 'x) hook = "'w \<Rightarrow> 'x \<Rightarrow> 'w \<times> 'x \<times> err"

type_synonym conn = nat

record ('w, 'v) ServerRWPlugin =
  sPreReadRequest :: "('w, RpcRequest) hook"
  sPostReadRequest :: "('w, RpcRequest \<times> 'v) hook"
  sPreWriteResponse :: "('w, RpcResponse \<times> 'v option) hook"
  sPostWriteResponse :: "('w, RpcResponse \<times> 'v option) hook"

record ('w, 'v) ClientRWPlugin =
  cPreWriteRequest :: "('w, RpcRequest \<times> 'v) hook"
  cPostWriteRequest :: "('w, RpcRequest \<times> 'v) hook"
  cPreReadResponse :: "('w, RpcResponse) hook"
  cPostReadResponse :: "('w, RpcResponse \<times> 'v option) hook"

record 'w ServerConnPlugin =
  hHandleConnAccept :: "('w, conn) hook"
  hHandleConnClose :: "('w, conn) hook"

record 'w ServiceRegistrationPlugin =
  hRegisterService :: "('w, Endpoint) hook"
  hDeRegisterService :: "('w, Endpoint) hook"

text \<open>A plugin value; an interface it does not implement is \<open>None\<close>.\<close>

record ('w, 'v) Plugin =
  pl_Name :: string
  pl_Type :: PluginType
  pl_disabled :: bool
  as_ServerRW :: "('w, 'v) ServerRWPlugin option"
  as_ClientRW :: "('w, 'v) ClientRWPlugin option"
  as_ServerConn :: "'w ServerConnPlugin option"
  as_ServiceRegistration :: "'w ServiceRegistrationPlugin option"

section \<open>The manager\<close>

text \<open>
  \<^verbatim>\<open>plugins map[PluginType]map[string]Plugin\<close>; a nil outer map reads as an empty one, and an
  inner map may be nil (\<open>Some None\<close>).
\<close>

record ('w, 'v) pluginManager =
  plugins :: "PluginType \<rightharpoonup> (string \<rightharpoonup> ('w, 'v) Plugin) option"

definition newServerPluginManager :: "('w, 'v) pluginManager" where
  "newServerPluginManager = \<lparr>plugins = Map.empty\<rparr>"

definition newClientPluginManager :: "('w, 'v) pluginManager" where
  "newClientPluginManager = \<lparr>plugins = Map.empty\<rparr>"

text \<open>
  \<^verbatim>\<open>Add\<close>: a fresh inner map made for a nil one is kept in a local variable only, so it is
  lost when the method returns.
\<close>

definition pm_Add :: "('w, 'v) pluginManager \<Rightarrow> ('w, 'v) Plugin \<Rightarrow> ('w, 'v) pluginManager" where
  "pm_Add pm p =
     (case plugins pm (pl_Type p) of
        None \<Rightarrow> pm
      | Some None \<Rightarrow> pm
      | Some (Some typMap) \<Rightarrow>
          pm\<lparr>plugins := (plugins pm)(pl_Type p \<mapsto> Some (typMap(pl_Name p \<mapsto> p)))\<rparr>)"

definition pm_find :: "('w, 'v) pluginManager \<Rightarrow> ('w, 'v) Plugin \<Rightarrow> ('w, 'v) Plugin option" where
  "pm_find pm pl =
     (case plugins pm (pl_Type pl) of
        Some (Some typMap) \<Rightarrow> typMap (pl_Name pl)
      | _ \<Rightarrow> None)"

definition pm_put :: "('w, 'v) pluginManager \<Rightarrow> ('w, 'v) Plugin \<Rightarrow> ('w, 'v) Plugin option \<Rightarrow> ('w, 'v) pluginManager" where
  "pm_put pm pl x =
     (case plugins pm (pl_Type pl) of
        Some (Some typMap) \<Rightarrow>
          pm\<lparr>plugins := (plugins pm)(pl_Type pl \<mapsto> Some (typMap(pl_Name pl := x)))\<rparr>
      | _ \<Rightarrow> pm)"

definition pm_Remove :: "('w, 'v) pluginManager \<Rightarrow> ('w, 'v) Plugin \<Rightarrow> ('w, 'v) pluginManager" where
  "pm_Remove pm pl =
     (case pm_find pm pl of None \<Rightarrow> pm | Some p \<Rightarrow> pm_put pm (pl\<lparr>pl_Name := pl_Name p\<rparr>) None)"

text \<open>
  \<^verbatim>\<open>Disable\<close> and \<^verbatim>\<open>Enable\<close>, where \<^verbatim>\<open>SetDisable\<close> stores the flag, as the plugins of the
  repository do.
\<close>

definition pm_SetDisable ::
  "bool \<Rightarrow> ('w, 'v) pluginManager \<Rightarrow> ('w, 'v) Plugin \<Rightarrow> ('w, 'v) pluginManager \<times> err" where
  "pm_SetDisable d pm pl =
     (case plugins pm (pl_Type pl) of
        None \<Rightarrow> (pm, None)
      | Some _ \<Rightarrow>
          (case pm_find pm pl of
             Some p \<Rightarrow> (pm_put pm pl (Some (p\<lparr>pl_disabled := d\<rparr>)), None)
           | None \<Rightarrow> (pm, Some (NewError ''not found plugin, please add it first''))))"

definition pm_Disable :: "('w, 'v) pluginManager \<Rightarrow> ('w, 'v) Plugin \<Rightarrow> ('w, 'v) pluginManager \<times> err" where
  "pm_Disable pm pl = pm_SetDisable True pm pl"

definition pm_Enable :: "('w, 'v) pluginManager \<Rightarrow> ('w, 'v) Plugin \<Rightarrow> ('w, 'v) pluginManager \<times> err" where
  "pm_Enable pm pl = pm_SetDisable False pm pl"

section \<open>Running a hook on all plugins of a type\<close>

text \<open>
  The loop: the hook \<open>get p\<close> of each plugin runs on the subject, and the errors are
  collected. A plugin that does not implement the interface makes the type assertion panic.
\<close>

fun run_hooks ::
  "('p \<Rightarrow> ('w, 'x) hook option) \<Rightarrow> 'p list \<Rightarrow> 'w \<Rightarrow> 'x \<Rightarrow> ('w \<times> 'x \<times> go_error list) outcome" where
  "run_hooks get [] w x = Returns (w, x, [])"
| "run_hooks get (p # ps) w x =
     (case get p of
        None \<Rightarrow> Panics ''interface conversion''
      | Some h \<Rightarrow>
          let (w1, x1, e) = h w x
          in (case run_hooks get ps w1 x1 of
                Returns (w2, x2, errs) \<Rightarrow> Returns (w2, x2, (case e of None \<Rightarrow> errs | Some er \<Rightarrow> er # errs))
              | Panics m \<Rightarrow> Panics m
              | Blocks \<Rightarrow> Blocks))"

text \<open>
  A manager's hook: nothing to do without a map for the type; otherwise the loop over the
  map, in the order \<open>ord\<close>, and one error made of all the errors.
\<close>

definition manager_hook ::
  "PluginType \<Rightarrow> string \<Rightarrow> (('w, 'v) Plugin \<Rightarrow> ('w, 'x) hook option) \<Rightarrow> string list \<Rightarrow>
   ('w, 'v) pluginManager \<Rightarrow> 'w \<Rightarrow> 'x \<Rightarrow> ('w \<times> 'x \<times> err) outcome" where
  "manager_hook typ label get ord pm w x =
     (case plugins pm typ of
        None \<Rightarrow> Returns (w, x, None)
      | Some typMap \<Rightarrow>
          (case run_hooks get (case typMap of None \<Rightarrow> [] | Some m \<Rightarrow> range_values m ord) w x of
             Panics m \<Rightarrow> Panics m
           | Blocks \<Rightarrow> Blocks
           | Returns (w', x', errs) \<Rightarrow>
               if length errs \<noteq> 0
               then (case WrapArrayErrs errs of
                       None \<Rightarrow> Panics ''invalid memory address or nil pointer dereference''
                     | Some e \<Rightarrow> Returns (w', x', Some (NewError (label @ error_text e))))
               else Returns (w', x', None)))"

section \<open>serverPluginManager\<close>

definition spm_PreWriteRequest :: "RpcRequest \<Rightarrow> err" where
  "spm_PreWriteRequest req = Some UnsupportedOperationError"

definition spm_PostWriteRequest :: "RpcRequest \<Rightarrow> err" where
  "spm_PostWriteRequest req = Some UnsupportedOperationError"

definition spm_PreReadResponse :: "RpcResponse \<Rightarrow> err" where
  "spm_PreReadResponse resp = Some UnsupportedOperationError"

definition spm_PostReadResponse :: "RpcResponse \<Rightarrow> err" where
  "spm_PostReadResponse resp = Some UnsupportedOperationError"

definition spm_PreReadRequest ::
  "string list \<Rightarrow> ('w, 'v) pluginManager \<Rightarrow> 'w \<Rightarrow> RpcRequest \<Rightarrow> ('w \<times> RpcRequest \<times> err) outcome" where
  "spm_PreReadRequest = manager_hook ServerRWPluginType ''pre-read-request error happened: ''
     (\<lambda>p. map_option sPreReadRequest (as_ServerRW p))"

definition spm_PostReadRequest ::
  "string list \<Rightarrow> ('w, 'v) pluginManager \<Rightarrow> 'w \<Rightarrow> RpcRequest \<times> 'v \<Rightarrow> ('w \<times> (RpcRequest \<times> 'v) \<times> err) outcome" where
  "spm_PostReadRequest = manager_hook ServerRWPluginType ''post-read-request error happened: ''
     (\<lambda>p. map_option sPostReadRequest (as_ServerRW p))"

definition spm_PreWriteResponse ::
  "string list \<Rightarrow> ('w, 'v) pluginManager \<Rightarrow> 'w \<Rightarrow> RpcResponse \<times> 'v option
     \<Rightarrow> ('w \<times> (RpcResponse \<times> 'v option) \<times> err) outcome" where
  "spm_PreWriteResponse = manager_hook ServerRWPluginType ''pre-write-response error happened: ''
     (\<lambda>p. map_option sPreWriteResponse (as_ServerRW p))"

definition spm_PostWriteResponse ::
  "string list \<Rightarrow> ('w, 'v) pluginManager \<Rightarrow> 'w \<Rightarrow> RpcResponse \<times> 'v option
     \<Rightarrow> ('w \<times> (RpcResponse \<times> 'v option) \<times> err) outcome" where
  "spm_PostWriteResponse = manager_hook ServerRWPluginType ''post-write-response error happened: ''
     (\<lambda>p. map_option sPostWriteResponse (as_ServerRW p))"

text \<open>
  \<^verbatim>\<open>HandleConnAccept\<close> passes on the connection a plugin returns only when the plugin reports
  no error; the adapter below gives the hook that meaning.
\<close>

definition keep_on_error :: "('w, 'x) hook \<Rightarrow> ('w, 'x) hook" where
  "keep_on_error h = (\<lambda>w x. let (w', x', e) = h w x in (w', if e = None then x' else x, e))"

definition ignore_subject :: "('w, 'x) hook \<Rightarrow> ('w, 'x) hook" where
  "ignore_subject h = (\<lambda>w x. let (w', x', e) = h w x in (w', x, e))"

definition spm_HandleConnAccept ::
  "string list \<Rightarrow> ('w, 'v) pluginManager \<Rightarrow> 'w \<Rightarrow> conn \<Rightarrow> ('w \<times> conn \<times> err) outcome" where
  "spm_HandleConnAccept = manager_hook ServerConnPluginType ''handle-conn-accept error happened: ''
     (\<lambda>p. map_option (\<lambda>h. keep_on_error (hHandleConnAccept h)) (as_ServerConn p))"

definition spm_HandleConnClose ::
  "string list \<Rightarrow> ('w, 'v) pluginManager \<Rightarrow> 'w \<Rightarrow> conn \<Rightarrow> ('w \<times> conn \<times> err) outcome" where
  "spm_HandleConnClose = manager_hook ServerConnPluginType ''handle-conn-close error happened: ''
     (\<lambda>p. map_option (\<lambda>h. ignore_subject (hHandleConnClose h)) (as_ServerConn p))"

text \<open>\<^verbatim>\<open>RegisterService\<close> stops at the first error.\<close>

fun register_first :: "('w, 'v) Plugin list \<Rightarrow> 'w \<Rightarrow> Endpoint \<Rightarrow> ('w \<times> err) outcome" where
  "register_first [] w s = Returns (w, None)"
| "register_first (p # ps) w s =
     (case as_ServiceRegistration p of
        None \<Rightarrow> Panics ''interface conversion''
      | Some h \<Rightarrow>
          let (w', s', e) = hRegisterService h w s
          in if e \<noteq> None then Returns (w', e) else register_first ps w' s')"

definition spm_RegisterService ::
  "string list \<Rightarrow> ('w, 'v) pluginManager \<Rightarrow> 'w \<Rightarrow> Endpoint \<Rightarrow> ('w \<times> err) outcome" where
  "spm_RegisterService ord pm w s =
     (case plugins pm ServiceRegistrationPluginType of
        Some (Some m) \<Rightarrow> register_first (range_values m ord) w s
      | _ \<Rightarrow> Returns (w, None))"

section \<open>clientPluginManager\<close>

definition cpm_PreWriteRequest ::
  "string list \<Rightarrow> ('w, 'v) pluginManager \<Rightarrow> 'w \<Rightarrow> RpcRequest \<times> 'v \<Rightarrow> ('w \<times> (RpcRequest \<times> 'v) \<times> err) outcome" where
  "cpm_PreWriteRequest = manager_hook ClientRWPluginType ''pre-write-request error happened: ''
     (\<lambda>p. map_option cPreWriteRequest (as_ClientRW p))"

definition cpm_PostWriteRequest ::
  "string list \<Rightarrow> ('w, 'v) pluginManager \<Rightarrow> 'w \<Rightarrow> RpcRequest \<times> 'v \<Rightarrow> ('w \<times> (RpcRequest \<times> 'v) \<times> err) outcome" where
  "cpm_PostWriteRequest = manager_hook ClientRWPluginType ''post-write-request error happened: ''
     (\<lambda>p. map_option cPostWriteRequest (as_ClientRW p))"

definition cpm_PreReadResponse ::
  "string list \<Rightarrow> ('w, 'v) pluginManager \<Rightarrow> 'w \<Rightarrow> RpcResponse \<Rightarrow> ('w \<times> RpcResponse \<times> err) outcome" where
  "cpm_PreReadResponse = manager_hook ClientRWPluginType ''pre-read-response error happened: ''
     (\<lambda>p. map_option cPreReadResponse (as_ClientRW p))"

definition cpm_PostReadResponse ::
  "string list \<Rightarrow> ('w, 'v) pluginManager \<Rightarrow> 'w \<Rightarrow> RpcResponse \<times> 'v option
     \<Rightarrow> ('w \<times> (RpcResponse \<times> 'v option) \<times> err) outcome" where
  "cpm_PostReadResponse = manager_hook ClientRWPluginType ''post-read-response error happened: ''
     (\<lambda>p. map_option cPostReadResponse (as_ClientRW p))"

definition cpm_PreReadRequest :: "RpcRequest \<Rightarrow> err" where
  "cpm_PreReadRequest req = Some UnsupportedOperationError"

definition cpm_PostReadRequest :: "RpcRequest \<Rightarrow> err" where
  "cpm_PostReadRequest req = Some UnsupportedOperationError"

definition cpm_PreWriteResponse :: "RpcResponse \<Rightarrow> err" where
  "cpm_PreWriteResponse resp = Some UnsupportedOperationError"

definition cpm_PostWriteResponse :: "RpcResponse \<Rightarrow> err" where
  "cpm_PostWriteResponse resp = Some UnsupportedOperationError"

definition cpm_HandleConnAccept :: "conn \<Rightarrow> conn \<times> err" where
  "cpm_HandleConnAccept c = (c, Some UnsupportedOperationError)"

definition cpm_HandleConnClose :: "conn \<Rightarrow> err" where
  "cpm_HandleConnClose c = Some UnsupportedOperationError"

definition cpm_PreRegister :: "Endpoint \<Rightarrow> Endpoint \<times> err" where
  "cpm_PreRegister s = (s, Some UnsupportedOperationError)"

definition cpm_RegisterService :: "Endpoint \<Rightarrow> err" where
  "cpm_RegisterService s = Some UnsupportedOperationError"

section \<open>Lemmas\<close>

subsection \<open>The loop\<close>

lemma run_hooks_cong:
  "list_all2 (\<lambda>p q. get p = get q) ps qs \<Longrightarrow> run_hooks get ps w x = run_hooks get qs w x"
  by (induction arbitrary: w x rule: list_all2_induct)
    (auto simp: Let_def split: prod.splits option.splits outcome.splits)

lemma range_values_rel:
  "(\<And>k. rel_option R (m k) (m' k)) \<Longrightarrow> list_all2 R (range_values m ord) (range_values m' ord)"
proof (induction ord)
  case (Cons k ks)
  then show ?case using Cons.prems [of k] by (cases "m k"; cases "m' k") (auto simp: range_values_def map_filter_simps)
qed (simp add: range_values_def map_filter_simps)

subsection \<open>The contract of a manager's hook\<close>

text \<open>
  Ten methods of the two managers run a hook of one interface. What the server and the
  client rely on is derived once.
\<close>

locale plugin_hook =
  fixes run :: "string list \<Rightarrow> ('w, 'v) pluginManager \<Rightarrow> 'w \<Rightarrow> 'x \<Rightarrow> ('w \<times> 'x \<times> err) outcome"
    and ptype :: PluginType
    and label :: string
    and get :: "('w, 'v) Plugin \<Rightarrow> ('w, 'x) hook option"
  assumes run_manager: "run ord pm w x = manager_hook ptype label get ord pm w x"
    and get_disabled: "get (p\<lparr>pl_disabled := d\<rparr>) = get p"
begin

lemma no_plugins: "plugins pm ptype = None \<Longrightarrow> run ord pm w x = Returns (w, x, None)"
  by (simp add: run_manager manager_hook_def)

lemma disable_ignored: "run ord (fst (pm_SetDisable d pm pl)) w x = run ord pm w x"
proof (cases "plugins pm (pl_Type pl)")
  case (Some o')
  show ?thesis
  proof (cases o')
    case (Some m)
    show ?thesis
    proof (cases "m (pl_Name pl)")
      case (Some p)
      have "list_all2 (\<lambda>p q. get p = get q)
          (range_values (m(pl_Name pl \<mapsto> p\<lparr>pl_disabled := d\<rparr>)) ord) (range_values m ord)"
        using Some by (intro range_values_rel) (auto simp: get_disabled option.rel_refl)
      note run_hooks_cong [OF this]
      with \<open>plugins pm (pl_Type pl) = Some o'\<close> \<open>o' = Some m\<close> Some show ?thesis
        by (auto simp: run_manager manager_hook_def pm_SetDisable_def pm_find_def pm_put_def)
    qed (simp add: pm_SetDisable_def pm_find_def \<open>plugins pm (pl_Type pl) = Some o'\<close> \<open>o' = Some m\<close>)
  qed (simp add: pm_SetDisable_def pm_find_def Some)
qed (simp add: pm_SetDisable_def)

end

interpretation spm_pre_read: plugin_hook spm_PreReadRequest ServerRWPluginType
  "''pre-read-request error happened: ''" "\<lambda>p. map_option sPreReadRequest (as_ServerRW p)"
  by unfold_locales (simp_all add: spm_PreReadRequest_def)

interpretation spm_post_read: plugin_hook spm_PostReadRequest ServerRWPluginType
  "''post-read-request error happened: ''" "\<lambda>p. map_option sPostReadRequest (as_ServerRW p)"
  by unfold_locales (simp_all add: spm_PostReadRequest_def)

interpretation spm_pre_write: plugin_hook spm_PreWriteResponse ServerRWPluginType
  "''pre-write-response error happened: ''" "\<lambda>p. map_option sPreWriteResponse (as_ServerRW p)"
  by unfold_locales (simp_all add: spm_PreWriteResponse_def)

interpretation spm_post_write: plugin_hook spm_PostWriteResponse ServerRWPluginType
  "''post-write-response error happened: ''" "\<lambda>p. map_option sPostWriteResponse (as_ServerRW p)"
  by unfold_locales (simp_all add: spm_PostWriteResponse_def)

interpretation spm_accept: plugin_hook spm_HandleConnAccept ServerConnPluginType
  "''handle-conn-accept error happened: ''"
  "\<lambda>p. map_option (\<lambda>h. keep_on_error (hHandleConnAccept h)) (as_ServerConn p)"
  by unfold_locales (simp_all add: spm_HandleConnAccept_def)

interpretation spm_close: plugin_hook spm_HandleConnClose ServerConnPluginType
  "''handle-conn-close error happened: ''"
  "\<lambda>p. map_option (\<lambda>h. ignore_subject (hHandleConnClose h)) (as_ServerConn p)"
  by unfold_locales (simp_all add: spm_HandleConnClose_def)

interpretation cpm_pre_write: plugin_hook cpm_PreWriteRequest ClientRWPluginType
  "''pre-write-request error happened: ''" "\<lambda>p. map_option cPreWriteRequest (as_ClientRW p)"
  by unfold_locales (simp_all add: cpm_PreWriteRequest_def)

interpretation cpm_post_write: plugin_hook cpm_PostWriteRequest ClientRWPluginType
  "''post-write-request error happened: ''" "\<lambda>p. map_option cPostWriteRequest (as_ClientRW p)"
  by unfold_locales (simp_all add: cpm_PostWriteRequest_def)

interpretation cpm_pre_read: plugin_hook cpm_PreReadResponse ClientRWPluginType
  "''pre-read-response error happened: ''" "\<lambda>p. map_option cPreReadResponse (as_ClientRW p)"
  by unfold_locales (simp_all add: cpm_PreReadResponse_def)

interpretation cpm_post_read: plugin_hook cpm_PostReadResponse ClientRWPluginType
  "''post-read-response error happened: ''" "\<lambda>p. map_option cPostReadResponse (as_ClientRW p)"
  by unfold_locales (simp_all add: cpm_PostReadResponse_def)

section \<open>Histories of a manager\<close>

datatype ('w, 'v) pm_op = OpAdd "('w, 'v) Plugin" | OpRemove "('w, 'v) Plugin"
  | OpDisable "('w, 'v) Plugin" | OpEnable "('w, 'v) Plugin"

fun pm_apply :: "('w, 'v) pluginManager \<Rightarrow> ('w, 'v) pm_op \<Rightarrow> ('w, 'v) pluginManager" where
  "pm_apply pm (OpAdd p) = pm_Add pm p"
| "pm_apply pm (OpRemove p) = pm_Remove pm p"
| "pm_apply pm (OpDisable p) = fst (pm_Disable pm p)"
| "pm_apply pm (OpEnable p) = fst (pm_Enable pm p)"

lemma pm_apply_no_types: "plugins pm = Map.empty \<Longrightarrow> pm_apply pm op = pm"
  by (cases op)
    (simp_all add: pm_Add_def pm_Remove_def pm_find_def pm_Disable_def pm_Enable_def pm_SetDisable_def)

lemma pm_history_empty: "plugins pm = Map.empty \<Longrightarrow> foldl pm_apply pm ops = pm"
  by (induction ops) (simp_all add: pm_apply_no_types)

section \<open>Properties\<close>

text \<open>
  C36. No plugin is ever installed: whatever sequence of \<^verbatim>\<open>Add\<close>, \<^verbatim>\<open>Remove\<close>,
  \<^verbatim>\<open>Disable\<close> and \<^verbatim>\<open>Enable\<close> calls is made on a new manager, it stays without plugins,
  because \<^verbatim>\<open>Add\<close> stores a plugin only in an inner map that nothing creates. Every hook of
  the server's and the client's manager then returns no error and changes nothing.
\<close>

theorem Add_never_installs:
  "let spm = foldl pm_apply newServerPluginManager (ops :: ('w, 'v) pm_op list);
       cpm = foldl pm_apply newClientPluginManager ops
   in plugins spm = Map.empty \<and> plugins cpm = Map.empty
    \<and> spm_PreReadRequest ord spm w req = Returns (w, req, None)
    \<and> spm_PostReadRequest ord spm w (req, v) = Returns (w, (req, v), None)
    \<and> spm_PreWriteResponse ord spm w (resp, b) = Returns (w, (resp, b), None)
    \<and> spm_PostWriteResponse ord spm w (resp, b) = Returns (w, (resp, b), None)
    \<and> spm_HandleConnAccept ord spm w c = Returns (w, c, None)
    \<and> spm_HandleConnClose ord spm w c = Returns (w, c, None)
    \<and> spm_RegisterService ord spm w ep = Returns (w, None)
    \<and> cpm_PreWriteRequest ord cpm w (req, v) = Returns (w, (req, v), None)
    \<and> cpm_PostWriteRequest ord cpm w (req, v) = Returns (w, (req, v), None)
    \<and> cpm_PreReadResponse ord cpm w resp = Returns (w, resp, None)
    \<and> cpm_PostReadResponse ord cpm w (resp, b) = Returns (w, (resp, b), None)"
  by (simp add: pm_history_empty newServerPluginManager_def newClientPluginManager_def
      spm_pre_read.no_plugins spm_post_read.no_plugins spm_pre_write.no_plugins
      spm_post_write.no_plugins spm_accept.no_plugins spm_close.no_plugins cpm_pre_write.no_plugins
      cpm_post_write.no_plugins cpm_pre_read.no_plugins cpm_post_read.no_plugins spm_RegisterService_def)

text \<open>
  Disabling a plugin has no effect on the hooks: no manager method asks
  \<^verbatim>\<open>IsDisabled\<close>, so in any manager, with plugins or without, a hook runs exactly as before
  after \<^verbatim>\<open>Disable\<close> or \<^verbatim>\<open>Enable\<close> of any plugin.
\<close>

lemma Disable_does_not_stop_hooks:
  "spm_PreReadRequest ord (fst (pm_Disable pm pl)) w req = spm_PreReadRequest ord pm w req
   \<and> spm_PostWriteResponse ord (fst (pm_Disable pm pl)) w x = spm_PostWriteResponse ord pm w x
   \<and> spm_HandleConnAccept ord (fst (pm_Disable pm pl)) w c = spm_HandleConnAccept ord pm w c
   \<and> cpm_PreReadResponse ord (fst (pm_Enable pm pl)) w resp = cpm_PreReadResponse ord pm w resp
   \<and> cpm_PostReadResponse ord (fst (pm_Disable pm pl)) w y = cpm_PostReadResponse ord pm w y"
  by (simp add: pm_Disable_def pm_Enable_def spm_pre_read.disable_ignored spm_post_write.disable_ignored
      spm_accept.disable_ignored cpm_pre_read.disable_ignored cpm_post_read.disable_ignored)

end
