(* ===== verification/PendingTable.thy ===== *)
theory PendingTable
  imports Prelude "HOL-Library.Multiset"
begin

text \<open>
  The interface of a table of pending entries under sequence numbers. Two components keep
  one: the client (\<^verbatim>\<open>Client.pending\<close>, the calls that wait for a response) and the JSON
  server codec (\<^verbatim>\<open>jsonServerCodec.pending\<close>, the ids of the requests that wait for theirs).
  Each issues the next number for a new entry and takes an entry out by its number. The
  locale states what they promise and derives, once for both, that no entry is lost,
  duplicated or handed out twice.
\<close>

datatype 'v table_op = Issue 'v | Take u64

fun issued :: "'v table_op list \<Rightarrow> 'v list" where
  "issued [] = []"
| "issued (Issue v # ops) = v # issued ops"
| "issued (Take k # ops) = issued ops"

text \<open>A run of operations: the entries taken, in order, and the final state.\<close>

fun run_table ::
  "('s \<Rightarrow> 'v \<Rightarrow> u64 \<times> 's) \<Rightarrow> ('s \<Rightarrow> u64 \<Rightarrow> 'v option \<times> 's) \<Rightarrow> 's \<Rightarrow> 'v table_op list \<Rightarrow> 'v list \<times> 's" where
  "run_table issue takeout s [] = ([], s)"
| "run_table issue takeout s (Issue v # ops) = run_table issue takeout (snd (issue s v)) ops"
| "run_table issue takeout s (Take k # ops) =
     (let (r, s1) = takeout s k; (vs, s2) = run_table issue takeout s1 ops
      in (case r of Some v \<Rightarrow> v # vs | None \<Rightarrow> vs, s2))"

text \<open>The entries of a table, as a multiset.\<close>

definition entries :: "('k \<rightharpoonup> 'v) \<Rightarrow> 'v multiset" where
  "entries m = image_mset (\<lambda>k. the (m k)) (mset_set (dom m))"

lemma entries_empty [simp]: "entries Map.empty = {#}"
  by (simp add: entries_def)

lemma entries_upd:
  assumes "finite (dom m)" "m k = None"
  shows "entries (m(k \<mapsto> v)) = add_mset v (entries m)"
proof -
  have "image_mset (\<lambda>x. the ((m(k \<mapsto> v)) x)) (mset_set (dom m)) = image_mset (\<lambda>x. the (m x)) (mset_set (dom m))"
    using assms by (intro image_mset_cong) auto
  then show ?thesis
    using assms by (simp add: entries_def domIff)
qed

lemma entries_delete:
  assumes "finite (dom m)" "m k = Some v"
  shows "entries m = add_mset v (entries (m(k := None)))"
proof -
  have "finite (dom (m(k := None)))" using assms by simp
  from entries_upd [OF this, of k v] have "entries ((m(k := None))(k \<mapsto> v)) = add_mset v (entries (m(k := None)))"
    by simp
  moreover have "(m(k := None))(k \<mapsto> v) = m" using assms(2) by auto
  ultimately show ?thesis by simp
qed

locale pending_table =
  fixes issue :: "'s \<Rightarrow> 'v \<Rightarrow> u64 \<times> 's"
    and takeout :: "'s \<Rightarrow> u64 \<Rightarrow> 'v option \<times> 's"
    and table :: "'s \<Rightarrow> u64 \<rightharpoonup> 'v"
    and count :: "'s \<Rightarrow> nat"
    and invar :: "'s \<Rightarrow> bool"
  assumes finite_table: "invar s \<Longrightarrow> finite (dom (table s))"
    and issue_fresh: "invar s \<Longrightarrow> count s < 2 ^ 64 - 1 \<Longrightarrow> table s (fst (issue s v)) = None"
    and issue_table: "invar s \<Longrightarrow> count s < 2 ^ 64 - 1 \<Longrightarrow>
      table (snd (issue s v)) = (table s)(fst (issue s v) \<mapsto> v)"
    and issue_count: "invar s \<Longrightarrow> count s < 2 ^ 64 - 1 \<Longrightarrow> count (snd (issue s v)) = Suc (count s)"
    and issue_invar: "invar s \<Longrightarrow> count s < 2 ^ 64 - 1 \<Longrightarrow> invar (snd (issue s v))"
    and take_entry: "invar s \<Longrightarrow> fst (takeout s k) = table s k"
    and take_table: "invar s \<Longrightarrow> table (snd (takeout s k)) = (table s)(k := None)"
    and take_count: "invar s \<Longrightarrow> count (snd (takeout s k)) = count s"
    and take_invar: "invar s \<Longrightarrow> invar (snd (takeout s k))"
begin

lemmas table_laws =
  issue_fresh issue_table issue_count issue_invar take_entry take_table take_count take_invar

lemma take_after_issue:
  "invar s \<Longrightarrow> count s < 2 ^ 64 - 1 \<Longrightarrow> issue s v = (k, s') \<Longrightarrow> fst (takeout s' k) = Some v"
  using issue_table [of s v] issue_invar [of s v] take_entry [of s' k] by simp

lemma take_twice: "invar s \<Longrightarrow> fst (takeout (snd (takeout s k)) k) = None"
  by (simp add: take_entry take_table take_invar)

lemma conservation:
  assumes "invar s" "count s + length (issued ops) < 2 ^ 64"
    and "run_table issue takeout s ops = (vs, s')"
  shows "mset vs + entries (table s') = mset (issued ops) + entries (table s)
    \<and> invar s' \<and> count s' = count s + length (issued ops)"
  using assms
proof (induction ops arbitrary: s vs)
  case Nil
  then show ?case by simp
next
  case (Cons op ops)
  show ?case
  proof (cases op)
    case (Issue v)
    have room: "count s < 2 ^ 64 - 1" using Cons.prems(2) Issue by simp
    have ent: "entries (table (snd (issue s v))) = add_mset v (entries (table s))"
      using issue_fresh [OF Cons.prems(1) room, of v] finite_table [OF Cons.prems(1)]
      by (simp add: issue_table [OF Cons.prems(1) room] entries_upd)
    have "mset vs + entries (table s') = mset (issued ops) + entries (table (snd (issue s v)))
        \<and> invar s' \<and> count s' = count (snd (issue s v)) + length (issued ops)"
      using Cons.prems(2,3) Issue
      by (intro Cons.IH) (auto simp: issue_invar [OF Cons.prems(1) room] issue_count [OF Cons.prems(1) room])
    then show ?thesis
      using Issue by (simp add: ent issue_count [OF Cons.prems(1) room])
  next
    case (Take k)
    obtain vs1 where run: "run_table issue takeout (snd (takeout s k)) ops = (vs1, s')"
      and vs: "vs = (case table s k of Some v \<Rightarrow> v # vs1 | None \<Rightarrow> vs1)"
      using Cons.prems(3) Take take_entry [OF Cons.prems(1), of k]
      by (auto simp: Let_def split: prod.splits)
    have "mset vs1 + entries (table s') = mset (issued ops) + entries ((table s)(k := None))
        \<and> invar s' \<and> count s' = count s + length (issued ops)"
      using Cons.IH [OF _ _ run] Cons.prems(1,2) Take by (simp add: table_laws fun_upd_def)
    then show ?thesis
      using Take vs finite_table [OF Cons.prems(1)]
      by (cases "table s k") (auto simp: entries_delete fun_upd_idem)
  qed
qed

end

end
