(* ===== verification/RpcClient.thy ===== *)
theory RpcClient
  imports Plugins PendingTable
begin

text \<open>
  The client of \<^verbatim>\<open>src/client.go\<close>. Its operations are split at the points where the code
  gives up a mutex: \<^verbatim>\<open>send\<close> registers the call (under \<^verbatim>\<open>reqMutex\<close> and \<^verbatim>\<open>mutex\<close>), writes
  the request (under \<^verbatim>\<open>reqMutex\<close>) and, on a write error, takes the call back (under both);
  \<^verbatim>\<open>receive\<close> reads a header (no lock), takes the call (under \<^verbatim>\<open>mutex\<close>), dispatches it (no
  lock) and finally terminates the pending calls (under both). The sequential operations
  compose these sections; the step relation interleaves them.
\<close>

section \<open>Data\<close>

text \<open>A call. \<open>call_Reply\<close> is what the reply pointer holds, \<open>None\<close> for a nil reply.\<close>

record 'v Call =
  call_ServiceMethod :: string
  call_Args :: 'v
  call_Reply :: "'v option"
  call_Error :: err
  call_Done :: nat

text \<open>A buffered channel of calls.\<close>

record chan =
  chan_cap :: nat
  chan_buf :: "nat list"

text \<open>The interface \<^verbatim>\<open>ClientCodec\<close> on a codec state \<open>'c\<close>.\<close>

record ('c, 'v) ClientCodec =
  WriteRequest :: "'c \<Rightarrow> RpcRequest \<Rightarrow> 'v \<Rightarrow> 'c \<times> err"
  ReadResponseHeader :: "'c \<Rightarrow> RpcResponse \<Rightarrow> 'c \<times> RpcResponse \<times> err"
  ReadResponseBody :: "'c \<Rightarrow> 'v option \<Rightarrow> ('c \<times> 'v option \<times> err) outcome"
  CloseCodec :: "'c \<Rightarrow> 'c \<times> err"

text \<open>
  The client with the calls and channels it uses, which live at addresses below
  \<open>next_addr\<close>; \<open>cl_world\<close> is the plugins' own state. \<open>donelog\<close> is a history variable: the
  calls on which \<^verbatim>\<open>done()\<close> was called, latest first.
\<close>

record ('c, 'w, 'v) Client =
  codec :: 'c
  cl_plugins :: "('w, 'v) pluginManager"
  cl_world :: 'w
  request :: RpcRequest
  seq :: u64
  pending :: "u64 \<rightharpoonup> nat"
  closing :: bool
  shutdown :: bool
  calls :: "nat \<Rightarrow> 'v Call"
  chans :: "nat \<Rightarrow> chan"
  next_addr :: nat
  donelog :: "nat list"

section \<open>Operations\<close>

definition NewClientWithCodec :: "'v Call \<Rightarrow> 'c \<Rightarrow> 'w \<Rightarrow> ('c, 'w, 'v) Client" where
  "NewClientWithCodec nocall cc w =
     \<lparr>codec = cc, cl_plugins = newClientPluginManager, cl_world = w, request = zero_RpcRequest,
      seq = 0, pending = Map.empty, closing = False, shutdown = False,
      calls = (\<lambda>_. nocall), chans = (\<lambda>_. \<lparr>chan_cap = 0, chan_buf = []\<rparr>),
      next_addr = 0, donelog = []\<rparr>"

text \<open>
  \<^verbatim>\<open>call.done()\<close>: a send on the call's channel that does not block; when the buffer is full
  the call is discarded.
\<close>

definition call_done :: "nat \<Rightarrow> ('c, 'w, 'v) Client \<Rightarrow> ('c, 'w, 'v) Client" where
  "call_done c cl =
     (let ch = call_Done (calls cl c); b = chans cl ch
      in cl\<lparr>chans := (if length (chan_buf b) < chan_cap b
                      then (chans cl)(ch := b\<lparr>chan_buf := chan_buf b @ [c]\<rparr>)
                      else chans cl),
            donelog := c # donelog cl\<rparr>)"

definition set_call_Error :: "nat \<Rightarrow> err \<Rightarrow> ('c, 'w, 'v) Client \<Rightarrow> ('c, 'w, 'v) Client" where
  "set_call_Error c e cl = cl\<lparr>calls := (calls cl)(c := (calls cl c)\<lparr>call_Error := e\<rparr>)\<rparr>"

definition set_call_Reply :: "nat \<Rightarrow> 'v option \<Rightarrow> ('c, 'w, 'v) Client \<Rightarrow> ('c, 'w, 'v) Client" where
  "set_call_Reply c x cl = cl\<lparr>calls := (calls cl)(c := (calls cl c)\<lparr>call_Reply := x\<rparr>)\<rparr>"

definition Client_Close :: "('c, 'v) ClientCodec \<Rightarrow> ('c, 'w, 'v) Client \<Rightarrow> ('c, 'w, 'v) Client \<times> err" where
  "Client_Close cc cl =
     (if closing cl then (cl, Some ErrShutdown)
      else let cl1 = cl\<lparr>closing := True\<rparr>; (c', e) = CloseCodec cc (codec cl1)
           in (cl1\<lparr>codec := c'\<rparr>, e))"

subsection \<open>Go and send\<close>

text \<open>
  The first part of \<^verbatim>\<open>Go\<close>: the call and, for a nil \<^verbatim>\<open>done\<close>, its channel are allocated; an
  unbuffered \<^verbatim>\<open>done\<close> panics.
\<close>

definition Go_call ::
  "('c, 'w, 'v) Client \<Rightarrow> string \<Rightarrow> 'v \<Rightarrow> 'v option \<Rightarrow> nat option \<Rightarrow> (nat \<times> ('c, 'w, 'v) Client) outcome" where
  "Go_call cl serviceMethod args reply dn =
     (let c = next_addr cl;
          new = (\<lambda>ch. \<lparr>call_ServiceMethod = serviceMethod, call_Args = args, call_Reply = reply,
                       call_Error = None, call_Done = ch\<rparr>)
      in case dn of
           None \<Rightarrow>
             let ch = Suc c
             in Returns (c, cl\<lparr>next_addr := Suc ch, calls := (calls cl)(c := new ch),
                               chans := (chans cl)(ch := \<lparr>chan_cap = 10, chan_buf = []\<rparr>)\<rparr>)
         | Some ch \<Rightarrow>
             if chan_cap (chans cl ch) = 0 then Panics ''done channel is unbuffered''
             else Returns (c, cl\<lparr>next_addr := Suc c, calls := (calls cl)(c := new ch)\<rparr>))"

text \<open>The two critical sections on the table of pending calls.\<close>

definition register_call :: "('c, 'w, 'v) Client \<Rightarrow> nat \<Rightarrow> u64 \<times> ('c, 'w, 'v) Client" where
  "register_call cl c =
     (let k = seq cl in (k, cl\<lparr>seq := seq cl + 1, pending := (pending cl)(k \<mapsto> c)\<rparr>))"

definition take_call :: "('c, 'w, 'v) Client \<Rightarrow> u64 \<Rightarrow> nat option \<times> ('c, 'w, 'v) Client" where
  "take_call cl k = (pending cl k, cl\<lparr>pending := (pending cl)(k := None)\<rparr>)"

text \<open>The sections of \<^verbatim>\<open>send\<close>: register or refuse, write, take back after a write error.\<close>

definition send_register :: "('c, 'w, 'v) Client \<Rightarrow> nat \<Rightarrow> u64 option \<times> ('c, 'w, 'v) Client" where
  "send_register cl c =
     (if shutdown cl \<or> closing cl
      then (None, call_done c (set_call_Error c (Some ErrShutdown) cl))
      else let (k, cl') = register_call cl c in (Some k, cl'))"

definition send_write ::
  "('c, 'v) ClientCodec \<Rightarrow> ('c, 'w, 'v) Client \<Rightarrow> nat \<Rightarrow> u64 \<Rightarrow> ('c, 'w, 'v) Client \<times> err" where
  "send_write cc cl c k =
     (let rq = (request cl)\<lparr>req_Seq := k, req_ServiceMethod := call_ServiceMethod (calls cl c)\<rparr>;
          (c', e) = WriteRequest cc (codec cl) rq (call_Args (calls cl c))
      in (cl\<lparr>request := rq, codec := c'\<rparr>, e))"

definition send_unregister :: "('c, 'w, 'v) Client \<Rightarrow> u64 \<Rightarrow> go_error \<Rightarrow> ('c, 'w, 'v) Client" where
  "send_unregister cl k e =
     (case take_call cl k of
        (None, cl') \<Rightarrow> cl'
      | (Some c, cl') \<Rightarrow> call_done c (set_call_Error c (Some e) cl'))"

definition send :: "('c, 'v) ClientCodec \<Rightarrow> ('c, 'w, 'v) Client \<Rightarrow> nat \<Rightarrow> ('c, 'w, 'v) Client" where
  "send cc cl c =
     (case send_register cl c of
        (None, cl1) \<Rightarrow> cl1
      | (Some k, cl1) \<Rightarrow>
          (case send_write cc cl1 c k of
             (cl2, None) \<Rightarrow> cl2
           | (cl2, Some e) \<Rightarrow> send_unregister cl2 k e))"

definition Go ::
  "('c, 'v) ClientCodec \<Rightarrow> ('c, 'w, 'v) Client \<Rightarrow> string \<Rightarrow> 'v \<Rightarrow> 'v option \<Rightarrow> nat option
     \<Rightarrow> (nat \<times> ('c, 'w, 'v) Client) outcome" where
  "Go cc cl serviceMethod args reply dn =
     (case Go_call cl serviceMethod args reply dn of
        Returns (c, cl') \<Rightarrow> Returns (c, send cc cl' c)
      | Panics m \<Rightarrow> Panics m
      | Blocks \<Rightarrow> Blocks)"

subsection \<open>receive\<close>

text \<open>
  The body of the loop after the header: the call \<open>co\<close> was taken out of the table. The
  result carries \<open>err\<close>, which ends the loop when it is not nil. \<open>ord\<close> are the orders in which
  the two plugin hooks run.
\<close>

definition wrap_error :: "string \<Rightarrow> err \<Rightarrow> err" where
  "wrap_error msg e = map_option (\<lambda>x. NewError (msg @ error_text x)) e"

definition receive_error ::
  "('c, 'v) ClientCodec \<Rightarrow> ('c, 'w, 'v) Client \<Rightarrow> (('c, 'w, 'v) Client \<times> err) outcome" where
  "receive_error cc cl =
     (case ReadResponseBody cc (codec cl) None of
        Panics m \<Rightarrow> Panics m | Blocks \<Rightarrow> Blocks
      | Returns (c', _, e) \<Rightarrow> Returns (cl\<lparr>codec := c'\<rparr>, wrap_error ''reading error body: '' e))"

definition receive_reply ::
  "('c, 'v) ClientCodec \<Rightarrow> string list \<Rightarrow> ('c, 'w, 'v) Client \<Rightarrow> RpcResponse \<Rightarrow> nat
     \<Rightarrow> (('c, 'w, 'v) Client \<times> err) outcome" where
  "receive_reply cc ord cl resp c =
     (case ReadResponseBody cc (codec cl) (call_Reply (calls cl c)) of
        Panics m \<Rightarrow> Panics m | Blocks \<Rightarrow> Blocks
      | Returns (c', x, e) \<Rightarrow>
          let cl1 = set_call_Reply c x (cl\<lparr>codec := c'\<rparr>);
              cl2 = (if e \<noteq> None then set_call_Error c (wrap_error ''reading body '' e) cl1 else cl1)
          in case cpm_PostReadResponse ord (cl_plugins cl2) (cl_world cl2) (resp, call_Reply (calls cl2 c)) of
               Panics m \<Rightarrow> Panics m | Blocks \<Rightarrow> Blocks
             | Returns (w', (_, x'), e') \<Rightarrow>
                 Returns (call_done c (set_call_Reply c x' (cl2\<lparr>cl_world := w'\<rparr>)),
                          wrap_error ''execute client PostReadResponse error:'' e'))"

definition receive_dispatch ::
  "('c, 'v) ClientCodec \<Rightarrow> string list \<times> string list \<Rightarrow> ('c, 'w, 'v) Client \<Rightarrow> RpcResponse \<Rightarrow> nat option
     \<Rightarrow> (('c, 'w, 'v) Client \<times> err) outcome" where
  "receive_dispatch cc ord cl resp0 co =
     (case cpm_PreReadResponse (fst ord) (cl_plugins cl) (cl_world cl) resp0 of
        Panics m \<Rightarrow> Panics m | Blocks \<Rightarrow> Blocks
      | Returns (w', resp, e) \<Rightarrow>
          let cl1 = cl\<lparr>cl_world := w'\<rparr>
          in if e \<noteq> None then Returns (cl1, e)
             else (case co of
                     None \<Rightarrow> receive_error cc cl1
                   | Some c \<Rightarrow>
                       if resp_Error resp \<noteq> []
                       then (case receive_error cc (set_call_Error c (Some (ServerError (resp_Error resp))) cl1) of
                               Returns (cl2, e') \<Rightarrow> Returns (call_done c cl2, e')
                             | Panics m \<Rightarrow> Panics m | Blocks \<Rightarrow> Blocks)
                       else receive_reply cc (snd ord) cl1 resp c))"

text \<open>One iteration of the loop.\<close>

definition receive_iter ::
  "('c, 'v) ClientCodec \<Rightarrow> string list \<times> string list \<Rightarrow> ('c, 'w, 'v) Client
     \<Rightarrow> (('c, 'w, 'v) Client \<times> err) outcome" where
  "receive_iter cc ord cl =
     (case ReadResponseHeader cc (codec cl) zero_RpcResponse of
        (c', resp, Some e) \<Rightarrow> Returns (cl\<lparr>codec := c'\<rparr>, Some e)
      | (c', resp, None) \<Rightarrow>
          (case take_call (cl\<lparr>codec := c'\<rparr>) (resp_Seq resp) of
             (co, cl1) \<Rightarrow> receive_dispatch cc ord cl1 resp co))"

text \<open>The end of \<^verbatim>\<open>receive\<close>: the calls still pending fail, in the order \<open>ks\<close>.\<close>

definition terminate_error :: "bool \<Rightarrow> go_error \<Rightarrow> go_error" where
  "terminate_error cls e =
     (if e = EOF then (if cls then ErrShutdown else ErrUnexpectedEOF) else e)"

fun fail_calls :: "go_error \<Rightarrow> nat list \<Rightarrow> ('c, 'w, 'v) Client \<Rightarrow> ('c, 'w, 'v) Client" where
  "fail_calls e [] cl = cl"
| "fail_calls e (c # cs) cl = fail_calls e cs (call_done c (set_call_Error c (Some e) cl))"

definition receive_terminate :: "u64 list \<Rightarrow> go_error \<Rightarrow> ('c, 'w, 'v) Client \<Rightarrow> ('c, 'w, 'v) Client" where
  "receive_terminate ks e cl =
     fail_calls (terminate_error (closing cl) e) (range_values (pending cl) ks) (cl\<lparr>shutdown := True\<rparr>)"

text \<open>
  The loop with fuel: \<open>None\<close> when the fuel is used up, otherwise the client and the error
  that ended the loop.
\<close>

fun receive_loop ::
  "('c, 'v) ClientCodec \<Rightarrow> string list \<times> string list \<Rightarrow> nat \<Rightarrow> ('c, 'w, 'v) Client
     \<Rightarrow> (('c, 'w, 'v) Client \<times> go_error) outcome option" where
  "receive_loop cc ord 0 cl = None"
| "receive_loop cc ord (Suc n) cl =
     (case receive_iter cc ord cl of
        Panics m \<Rightarrow> Some (Panics m)
      | Blocks \<Rightarrow> Some Blocks
      | Returns (cl', None) \<Rightarrow> receive_loop cc ord n cl'
      | Returns (cl', Some e) \<Rightarrow> Some (Returns (cl', e)))"

definition receive ::
  "('c, 'v) ClientCodec \<Rightarrow> string list \<times> string list \<Rightarrow> (('c, 'w, 'v) Client \<Rightarrow> u64 list) \<Rightarrow> nat
     \<Rightarrow> ('c, 'w, 'v) Client \<Rightarrow> ('c, 'w, 'v) Client outcome option" where
  "receive cc ord ks fuel cl =
     (case receive_loop cc ord fuel cl of
        None \<Rightarrow> None
      | Some (Panics m) \<Rightarrow> Some (Panics m)
      | Some Blocks \<Rightarrow> Some Blocks
      | Some (Returns (cl', e)) \<Rightarrow> Some (Returns (receive_terminate (ks cl') e cl')))"

subsection \<open>Call\<close>

text \<open>
  \<^verbatim>\<open>Call\<close> makes a channel with room for one call, starts the call on it and waits. The wait
  is the receive on that channel: the error of the call it delivers, or \<open>None\<close> while the
  channel is empty.
\<close>

definition make_chan :: "nat \<Rightarrow> ('c, 'w, 'v) Client \<Rightarrow> nat \<times> ('c, 'w, 'v) Client" where
  "make_chan cap cl =
     (let ch = next_addr cl
      in (ch, cl\<lparr>next_addr := Suc ch, chans := (chans cl)(ch := \<lparr>chan_cap = cap, chan_buf = []\<rparr>)\<rparr>))"

definition Call_start ::
  "('c, 'v) ClientCodec \<Rightarrow> ('c, 'w, 'v) Client \<Rightarrow> string \<Rightarrow> 'v \<Rightarrow> 'v option
     \<Rightarrow> (nat \<times> ('c, 'w, 'v) Client) outcome" where
  "Call_start cc cl serviceMethod args reply =
     (case make_chan 1 cl of (ch, cl1) \<Rightarrow> Go cc cl1 serviceMethod args reply (Some ch))"

definition Call_wait :: "('c, 'w, 'v) Client \<Rightarrow> nat \<Rightarrow> err option" where
  "Call_wait cl c =
     (case chan_buf (chans cl (call_Done (calls cl c))) of
        [] \<Rightarrow> None
      | c' # _ \<Rightarrow> Some (call_Error (calls cl c')))"

section \<open>Lemmas\<close>

subsection \<open>What the operations leave alone\<close>

lemma call_done_fields [simp]:
  "codec (call_done c cl) = codec cl" "cl_plugins (call_done c cl) = cl_plugins cl"
  "cl_world (call_done c cl) = cl_world cl" "request (call_done c cl) = request cl"
  "seq (call_done c cl) = seq cl" "pending (call_done c cl) = pending cl"
  "closing (call_done c cl) = closing cl" "shutdown (call_done c cl) = shutdown cl"
  "calls (call_done c cl) = calls cl" "next_addr (call_done c cl) = next_addr cl"
  "donelog (call_done c cl) = c # donelog cl"
  by (simp_all add: call_done_def Let_def)

lemma set_call_Error_fields [simp]:
  "codec (set_call_Error c e cl) = codec cl" "cl_plugins (set_call_Error c e cl) = cl_plugins cl"
  "cl_world (set_call_Error c e cl) = cl_world cl" "request (set_call_Error c e cl) = request cl"
  "seq (set_call_Error c e cl) = seq cl" "pending (set_call_Error c e cl) = pending cl"
  "closing (set_call_Error c e cl) = closing cl" "shutdown (set_call_Error c e cl) = shutdown cl"
  "calls (set_call_Error c e cl) = (calls cl)(c := (calls cl c)\<lparr>call_Error := e\<rparr>)"
  "chans (set_call_Error c e cl) = chans cl"
  "next_addr (set_call_Error c e cl) = next_addr cl" "donelog (set_call_Error c e cl) = donelog cl"
  by (simp_all add: set_call_Error_def)

lemma set_call_Reply_fields [simp]:
  "codec (set_call_Reply c x cl) = codec cl" "cl_plugins (set_call_Reply c x cl) = cl_plugins cl"
  "cl_world (set_call_Reply c x cl) = cl_world cl" "request (set_call_Reply c x cl) = request cl"
  "seq (set_call_Reply c x cl) = seq cl" "pending (set_call_Reply c x cl) = pending cl"
  "closing (set_call_Reply c x cl) = closing cl" "shutdown (set_call_Reply c x cl) = shutdown cl"
  "calls (set_call_Reply c x cl) = (calls cl)(c := (calls cl c)\<lparr>call_Reply := x\<rparr>)"
  "chans (set_call_Reply c x cl) = chans cl"
  "next_addr (set_call_Reply c x cl) = next_addr cl" "donelog (set_call_Reply c x cl) = donelog cl"
  by (simp_all add: set_call_Reply_def)

lemma fail_calls_fields [simp]:
  "cl_plugins (fail_calls e cs cl) = cl_plugins cl" "seq (fail_calls e cs cl) = seq cl"
  "pending (fail_calls e cs cl) = pending cl" "closing (fail_calls e cs cl) = closing cl"
  "shutdown (fail_calls e cs cl) = shutdown cl" "next_addr (fail_calls e cs cl) = next_addr cl"
  "donelog (fail_calls e cs cl) = rev cs @ donelog cl"
  by (induction cs arbitrary: cl) simp_all

lemma fail_calls_calls:
  "calls (fail_calls e cs cl) c =
     (if c \<in> set cs then (calls cl c)\<lparr>call_Error := Some e\<rparr> else calls cl c)"
  by (induction cs arbitrary: cl) auto

subsection \<open>The table of pending calls\<close>

definition client_invar :: "('c, 'w, 'v) Client \<Rightarrow> bool" where
  "client_invar cl \<longleftrightarrow> finite (dom (pending cl)) \<and> (\<forall>k \<in> dom (pending cl). k < seq cl)"

lemma client_invar_init: "client_invar (NewClientWithCodec nocall cc w)"
  by (simp add: client_invar_def NewClientWithCodec_def)

interpretation cl: pending_table
  "register_call :: ('c, 'w, 'v) Client \<Rightarrow> nat \<Rightarrow> u64 \<times> ('c, 'w, 'v) Client"
  take_call pending "\<lambda>cl. unat (seq cl)" client_invar
proof unfold_locales
  fix s :: "('c, 'w, 'v) Client" and v k
  assume inv: "client_invar s"
  show "finite (dom (pending s))" using inv by (simp add: client_invar_def)
  show "fst (take_call s k) = pending s k" "pending (snd (take_call s k)) = (pending s)(k := None)"
    "unat (seq (snd (take_call s k))) = unat (seq s)"
    by (simp_all add: take_call_def)
  show "client_invar (snd (take_call s k))"
    using inv by (auto simp: take_call_def client_invar_def)
  show "pending s (fst (register_call s v)) = None"
    using inv by (force simp: register_call_def Let_def client_invar_def)
  show "pending (snd (register_call s v)) = (pending s)(fst (register_call s v) \<mapsto> v)"
    by (simp add: register_call_def Let_def)
  assume room: "unat (seq s) < 2 ^ 64 - 1"
  note suc = u64_Suc [OF room]
  show "unat (seq (snd (register_call s v))) = Suc (unat (seq s))"
    using suc(2) by (simp add: register_call_def Let_def)
  show "client_invar (snd (register_call s v))"
    using inv suc(1) by (auto simp: register_call_def Let_def client_invar_def intro: less_trans)
qed

section \<open>Properties of the receive loop\<close>

text \<open>
  C17. A response reaches the call it answers and no other. When the header read carries the
  sequence number of a pending call and no error, one iteration takes that call out of the
  table, stores the decoded body in its reply, sets its error exactly when the body could
  not be read, completes it once and touches no other call; and the loop goes on, even
  after a body that could not be read.
\<close>

theorem receive_routes_reply:
  assumes "ReadResponseHeader cc (codec cl) zero_RpcResponse = (c1, resp, None)" "resp_Error resp = []"
    and "pending cl (resp_Seq resp) = Some c" "plugins (cl_plugins cl) = Map.empty"
    and "ReadResponseBody cc c1 (call_Reply (calls cl c)) = Returns (c2, x, e)"
  shows "\<exists>cl'. receive_iter cc ([], []) cl = Returns (cl', None)
    \<and> pending cl' = (pending cl)(resp_Seq resp := None) \<and> donelog cl' = c # donelog cl
    \<and> calls cl' = (calls cl)(c := (calls cl c)\<lparr>call_Reply := x,
         call_Error := (if e = None then call_Error (calls cl c) else wrap_error ''reading body '' e)\<rparr>)"
  using assms
  by (simp add: receive_iter_def take_call_def receive_dispatch_def cpm_pre_read.no_plugins receive_reply_def
      cpm_post_read.no_plugins Let_def) (simp add: wrap_error_def)

text \<open>
  C18. An error response completes its call with that error as a \<^verbatim>\<open>ServerError\<close>, leaves the
  reply alone and discards the body; a response for a number that is not pending completes
  nothing and changes no call. In both cases the loop ends only when the body cannot be
  discarded.
\<close>

theorem receive_routes_error:
  assumes "ReadResponseHeader cc (codec cl) zero_RpcResponse = (c1, resp, None)"
    and "plugins (cl_plugins cl) = Map.empty" "ReadResponseBody cc c1 None = Returns (c2, x, e)"
    and "pending cl (resp_Seq resp) = None \<or> resp_Error resp \<noteq> []"
  shows "\<exists>cl'. receive_iter cc ([], []) cl = Returns (cl', wrap_error ''reading error body: '' e)
    \<and> pending cl' = (pending cl)(resp_Seq resp := None)
    \<and> donelog cl' = (case pending cl (resp_Seq resp) of None \<Rightarrow> donelog cl | Some c \<Rightarrow> c # donelog cl)
    \<and> calls cl' = (case pending cl (resp_Seq resp) of None \<Rightarrow> calls cl
        | Some c \<Rightarrow> (calls cl)(c := (calls cl c)\<lparr>call_Error := Some (ServerError (resp_Error resp))\<rparr>))"
  using assms
  by (cases "pending cl (resp_Seq resp)")
    (simp_all add: receive_iter_def take_call_def receive_dispatch_def cpm_pre_read.no_plugins
      receive_error_def Let_def)

text \<open>A codec with one response, whose header and body are given, and a client with call 5 pending under 0.\<close>

definition echo_codec :: "string \<Rightarrow> (nat, nat) ClientCodec" where
  "echo_codec er = \<lparr>WriteRequest = (\<lambda>n r x. (n, None)),
     ReadResponseHeader = (\<lambda>n r. if n = 0 then (n, r, Some EOF) else (n - 1, r\<lparr>resp_Error := er\<rparr>, None)),
     ReadResponseBody = (\<lambda>n x. Returns (n, map_option (\<lambda>_. 7) x, None)),
     CloseCodec = (\<lambda>n. (n, None))\<rparr>"

definition echo_client :: "(nat, unit, nat) Client" where
  "echo_client = (NewClientWithCodec \<lparr>call_ServiceMethod = [], call_Args = 0, call_Reply = Some 0,
     call_Error = None, call_Done = 0\<rparr> 1 ())\<lparr>seq := 1, pending := [0 \<mapsto> 5], next_addr := 9\<rparr>"

lemmas echo_defs = echo_codec_def echo_client_def NewClientWithCodec_def newClientPluginManager_def
  zero_RpcResponse_def wrap_error_def

theorem receive_routes_reply_witness:
  "\<exists>cl'. receive_iter (echo_codec []) ([], []) echo_client = Returns (cl', None)
     \<and> donelog cl' = [5] \<and> call_Reply (calls cl' 5) = Some 7 \<and> call_Error (calls cl' 5) = None
     \<and> call_Reply (calls cl' 6) = Some 0"
proof -
  have h: "ReadResponseHeader (echo_codec []) (codec echo_client) zero_RpcResponse = (0, zero_RpcResponse, None)"
    "ReadResponseBody (echo_codec []) 0 (call_Reply (calls echo_client 5)) = Returns (0, Some 7, None)"
    by (simp_all add: echo_defs)
  show ?thesis using receive_routes_reply [OF h(1) _ _ _ h(2)] by (auto simp: echo_defs)
qed

theorem receive_routes_error_witness:
  "\<exists>cl'. receive_iter (echo_codec ''no'') ([], []) echo_client = Returns (cl', None)
     \<and> donelog cl' = [5] \<and> call_Error (calls cl' 5) = Some (ServerError ''no'') \<and> call_Reply (calls cl' 5) = Some 0"
proof -
  have h: "ReadResponseHeader (echo_codec ''no'') (codec echo_client) zero_RpcResponse
      = (0, zero_RpcResponse\<lparr>resp_Error := ''no''\<rparr>, None)"
    "ReadResponseBody (echo_codec ''no'') 0 None = Returns (0, None, None)"
    by (simp_all add: echo_defs)
  show ?thesis using receive_routes_error [OF h(1) _ h(2)] by (auto simp: echo_defs)
qed

text \<open>
  What the receive loop relies on in a codec: reading a header without an error uses up input,
  and the body of a response can then be read, or discarded, without a panic and without new
  input; \<open>input\<close> measures what the connection still holds.
\<close>

locale client_codec =
  fixes cc :: "('c, 'v) ClientCodec" and input :: "'c \<Rightarrow> nat"
  assumes header_uses_input:
      "ReadResponseHeader cc c zero_RpcResponse = (c', resp, None) \<Longrightarrow> input c' < input c"
    and body_returns:
      "ReadResponseHeader cc c zero_RpcResponse = (c', resp, None) \<Longrightarrow> x = None \<or> resp_Error resp = []
        \<Longrightarrow> \<exists>c2 y e. ReadResponseBody cc c' x = Returns (c2, y, e) \<and> input c2 \<le> input c'"
begin

lemma receive_iter_productive:
  assumes pl: "plugins (cl_plugins cl) = Map.empty"
  shows "\<exists>cl' e. receive_iter cc ([], []) cl = Returns (cl', e) \<and> plugins (cl_plugins cl') = Map.empty
    \<and> dom (pending cl') \<subseteq> dom (pending cl) \<and> (e = None \<longrightarrow> input (codec cl') < input (codec cl))"
proof -
  obtain c1 resp e where hd: "ReadResponseHeader cc (codec cl) zero_RpcResponse = (c1, resp, e)"
    by (metis prod_cases3)
  show ?thesis
  proof (cases e)
    case None
    have less: "input c1 < input (codec cl)" using header_uses_input hd None by blast
    obtain c2 y e2 where nobody: "ReadResponseBody cc c1 None = Returns (c2, y, e2)" "input c2 \<le> input c1"
      using body_returns hd None by blast
    show ?thesis
    proof (cases "pending cl (resp_Seq resp) = None \<or> resp_Error resp \<noteq> []")
      case True
      then show ?thesis using hd None nobody less pl
        by (auto simp: receive_iter_def take_call_def receive_dispatch_def cpm_pre_read.no_plugins
            receive_error_def Let_def split: option.splits)
    next
      case False
      then obtain c where c: "pending cl (resp_Seq resp) = Some c" "resp_Error resp = []" by auto
      obtain c3 z e3 where body: "ReadResponseBody cc c1 (call_Reply (calls cl c)) = Returns (c3, z, e3)"
          "input c3 \<le> input c1"
        using body_returns hd None c(2) by blast
      then show ?thesis using hd None c less pl
        by (auto simp: receive_iter_def take_call_def receive_dispatch_def cpm_pre_read.no_plugins
            receive_reply_def cpm_post_read.no_plugins Let_def)
    qed
  next
    case (Some er)
    then show ?thesis using hd pl by (simp add: receive_iter_def)
  qed
qed

lemma receive_loop_returns:
  assumes "plugins (cl_plugins cl) = Map.empty" "input (codec cl) < n"
  shows "\<exists>cl' e. receive_loop cc ([], []) n cl = Some (Returns (cl', e)) \<and> dom (pending cl') \<subseteq> dom (pending cl)"
  using assms
proof (induction n arbitrary: cl)
  case (Suc n)
  obtain cl1 e where it: "receive_iter cc ([], []) cl = Returns (cl1, e)" "plugins (cl_plugins cl1) = Map.empty"
      "dom (pending cl1) \<subseteq> dom (pending cl)" "e = None \<longrightarrow> input (codec cl1) < input (codec cl)"
    using receive_iter_productive [OF Suc.prems(1)] by blast
  show ?case
  proof (cases e)
    case None
    then obtain cl' e' where "receive_loop cc ([], []) n cl1 = Some (Returns (cl', e'))"
        "dom (pending cl') \<subseteq> dom (pending cl1)"
      using Suc.IH [OF it(2)] Suc.prems(2) it(4) by auto
    then show ?thesis using None it(1,3) by auto
  next
    case (Some er)
    then show ?thesis using it(1,3) by simp
  qed
qed simp

lemma receive_returns:
  assumes "plugins (cl_plugins cl) = Map.empty" "input (codec cl) < n"
    and "finite (dom (pending cl))" "\<And>cl'. finite (dom (pending cl')) \<Longrightarrow> range_order (pending cl') (ks cl')"
  shows "\<exists>cl'. receive cc ([], []) ks n cl = Some (Returns cl') \<and> shutdown cl'
    \<and> ran (pending cl') \<subseteq> set (donelog cl')
    \<and> (\<exists>e. \<forall>c \<in> ran (pending cl'). call_Error (calls cl' c) = Some e)"
proof -
  obtain cl1 e where "receive_loop cc ([], []) n cl = Some (Returns (cl1, e))" "dom (pending cl1) \<subseteq> dom (pending cl)"
    using receive_loop_returns [OF assms(1,2)] by blast
  then show ?thesis
    using set_range_values [OF assms(4), of cl1] finite_subset [OF _ assms(3)]
    by (auto simp: receive_def receive_terminate_def fail_calls_calls)
qed

end

end
