(* ===== verification/Json.thy ===== *)
theory Json
  imports GoStd
begin

text \<open>
  What the sources use of \<^verbatim>\<open>encoding/json\<close>, at the level of JSON values: a decoder reads
  the next value of its stream, an encoder appends one. Strings are coerced to valid UTF-8
  when they are encoded; object keys are matched with struct fields first exactly, then up
  to case; a decoder remembers a syntax or read error for ever.
\<close>

section \<open>Values and streams\<close>

text \<open>A number is kept as its literal, since the sources decode numbers into \<^verbatim>\<open>uint64\<close> only.\<close>

datatype json =
    JNull
  | JBool bool
  | JNum string
  | JStr string
  | JArr "json list"
  | JObj "(string \<times> json) list"

text \<open>
  The input of a \<^verbatim>\<open>json.Decoder\<close>: values, and errors of the syntax or of the connection.
  At the end of the stream the decoder reports \<^verbatim>\<open>io.EOF\<close>.
\<close>

type_synonym json_stream = "(go_error + json) list"

fun json_next :: "json_stream \<Rightarrow> (go_error + json) \<times> json_stream" where
  "json_next [] = (Inl EOF, [])"
| "json_next (Inl e # s) = (Inl e, Inl e # s)"
| "json_next (Inr j # s) = (Inr j, s)"

section \<open>Strings\<close>

text \<open>The length of the well-formed UTF-8 encoding at the head of a string, 0 if there is none.\<close>

fun utf8_len :: "nat list \<Rightarrow> nat" where
  "utf8_len [] = 0"
| "utf8_len (b0 # bs) =
     (if b0 < 128 then 1
      else if b0 < 194 \<or> 244 < b0 then 0
      else case bs of
        [] \<Rightarrow> 0
      | b1 # bs1 \<Rightarrow>
          if \<not> cont_byte (utf8_lo b0) (utf8_hi b0) b1 then 0
          else if b0 < 224 then 2
          else (case bs1 of
            [] \<Rightarrow> 0
          | b2 # bs2 \<Rightarrow>
              if \<not> cont_byte 128 191 b2 then 0
              else if b0 < 240 then 3
              else (case bs2 of
                [] \<Rightarrow> 0
              | b3 # _ \<Rightarrow> if cont_byte 128 191 b3 then 4 else 0)))"

definition utf8_RuneError :: string where
  "utf8_RuneError = [CHR 0xEF, CHR 0xBF, CHR 0xBD]"

text \<open>Encoding replaces each byte of an ill-formed sequence by the encoding of \<^verbatim>\<open>U+FFFD\<close>.\<close>

function coerceUTF8 :: "string \<Rightarrow> string" where
  "coerceUTF8 s =
     (if s = [] then []
      else let n = utf8_len (map of_char (take 4 s))
           in if n = 0 then utf8_RuneError @ coerceUTF8 (drop 1 s)
              else take n s @ coerceUTF8 (drop n s))"
  by pat_completeness auto
termination
  by (relation "measure length") auto

declare coerceUTF8.simps [simp del]

definition json_string :: "string \<Rightarrow> json" where
  "json_string s = JStr (coerceUTF8 s)"

section \<open>Struct fields\<close>

text \<open>
  Case folding of a key. The long s (\<^verbatim>\<open>U+017F\<close>) and the Kelvin sign (\<^verbatim>\<open>U+212A\<close>) are
  the only runes outside ASCII that fold to an ASCII letter.
\<close>

definition fold_byte :: "char \<Rightarrow> char" where
  "fold_byte c = (if 97 \<le> (of_char c :: nat) \<and> (of_char c :: nat) \<le> 122
                  then char_of (of_char c - 32 :: nat) else c)"

fun foldName :: "string \<Rightarrow> string" where
  "foldName [] = []"
| "foldName (c # cs) =
     (if c = CHR 0xC5 \<and> cs \<noteq> [] \<and> hd cs = CHR 0xBF then CHR ''S'' # foldName (tl cs)
      else if c = CHR 0xE2 \<and> 2 \<le> length cs \<and> hd cs = CHR 0x84 \<and> cs ! 1 = CHR 0xAA
      then CHR ''K'' # foldName (drop 2 cs)
      else fold_byte c # foldName cs)"

text \<open>The field a key is decoded into: the one with that name, else one with that name up to case.\<close>

definition match_field :: "string list \<Rightarrow> string \<Rightarrow> string option" where
  "match_field fields key =
     (if key \<in> set fields then Some key
      else List.find (\<lambda>f. foldName f = foldName key) fields)"

definition UnmarshalTypeError :: go_error where
  "UnmarshalTypeError = NewError ''json: cannot unmarshal value into Go value''"

text \<open>
  Decoding an object into a struct: each member in order is stored by \<open>put\<close> into the field
  its key matches; the first type error is remembered and the rest is decoded all the same.
  A \<open>null\<close> leaves the struct alone; any other value is a type error.
\<close>

fun decode_members ::
  "string list \<Rightarrow> (string \<Rightarrow> json \<Rightarrow> 's \<Rightarrow> 's \<times> err) \<Rightarrow> (string \<times> json) list \<Rightarrow> 's \<Rightarrow> 's \<times> err" where
  "decode_members fields put [] s = (s, None)"
| "decode_members fields put ((k, j) # ms) s =
     (case match_field fields k of
        None \<Rightarrow> decode_members fields put ms s
      | Some f \<Rightarrow>
          let (s1, e1) = put f j s; (s2, e2) = decode_members fields put ms s1
          in (s2, case e1 of None \<Rightarrow> e2 | Some e \<Rightarrow> Some e))"

definition decode_struct ::
  "string list \<Rightarrow> (string \<Rightarrow> json \<Rightarrow> 's \<Rightarrow> 's \<times> err) \<Rightarrow> json \<Rightarrow> 's \<Rightarrow> 's \<times> err" where
  "decode_struct fields put j s =
     (case j of
        JObj ms \<Rightarrow> decode_members fields put ms s
      | JNull \<Rightarrow> (s, None)
      | _ \<Rightarrow> (s, Some UnmarshalTypeError))"

text \<open>The targets the sources decode into: a string, a \<^verbatim>\<open>uint64\<close>, a \<^verbatim>\<open>*json.RawMessage\<close>.\<close>

fun decode_string :: "json \<Rightarrow> string \<Rightarrow> string \<times> err" where
  "decode_string (JStr s) old = (s, None)"
| "decode_string JNull old = (old, None)"
| "decode_string _ old = (old, Some UnmarshalTypeError)"

fun decode_uint64 :: "json \<Rightarrow> u64 \<Rightarrow> u64 \<times> err" where
  "decode_uint64 (JNum lit) old =
     (case strconv_ParseUint lit of Some w \<Rightarrow> (w, None) | None \<Rightarrow> (old, Some UnmarshalTypeError))"
| "decode_uint64 JNull old = (old, None)"
| "decode_uint64 _ old = (old, Some UnmarshalTypeError)"

definition decode_raw :: "json \<Rightarrow> json option" where
  "decode_raw j = (if j = JNull then None else Some j)"

definition encode_raw :: "json option \<Rightarrow> json" where
  "encode_raw r = (case r of None \<Rightarrow> JNull | Some j \<Rightarrow> j)"

definition encode_uint64 :: "u64 \<Rightarrow> json" where
  "encode_uint64 w = JNum (strconv_FormatUint w)"

section \<open>Lemmas\<close>

lemma decode_encode_uint64 [simp]: "decode_uint64 (encode_uint64 w) old = (w, None)"
  by (simp add: encode_uint64_def)

lemma decode_encode_raw [simp]: "r \<noteq> Some JNull \<Longrightarrow> decode_raw (encode_raw r) = r"
  by (auto simp: decode_raw_def encode_raw_def split: option.splits)

lemma encode_decode_raw [simp]: "encode_raw (decode_raw j) = j"
  by (simp add: decode_raw_def encode_raw_def)

lemma decode_raw_not_null: "decode_raw j \<noteq> Some JNull"
  by (simp add: decode_raw_def)

lemma match_field_exact [simp]: "f \<in> set fields \<Longrightarrow> match_field fields f = Some f"
  by (simp add: match_field_def)

lemma coerceUTF8_ascii: "\<forall>c \<in> set s. (of_char c :: nat) < 128 \<Longrightarrow> coerceUTF8 s = s"
proof (induction s)
  case Nil
  then show ?case by (subst coerceUTF8.simps) simp
next
  case (Cons c s)
  then show ?case by (subst coerceUTF8.simps) (simp add: Let_def)
qed

lemma json_string_ascii [simp]:
  "(\<forall>c \<in> set s. (of_char c :: nat) < 128) \<Longrightarrow> json_string s = JStr s"
  by (simp add: json_string_def coerceUTF8_ascii)

end
