(* ===== verification/JsonCodec.thy ===== *)
theory JsonCodec
  imports Json Messages PendingTable
begin

text \<open>
  The JSON codecs of \<^verbatim>\<open>src/json_codec.go\<close>, and the interfaces of \<^verbatim>\<open>src/codec.go\<close> they
  implement. The values of the RPC methods' own types are of type \<open>'v\<close>; their JSON forms
  are the parameters \<open>marshal\<close> and \<open>unmarshal\<close>. A connection is the stream of values still
  to be read, the values written so far, the error its writes report, if it is broken or closed, and
  the error that closing it reports.
\<close>

section \<open>The server codec\<close>

record serverRequest =
  sreq_Method :: string
  sreq_Params :: "json option"
  sreq_Id :: "json option"

definition serverRequest_reset :: serverRequest where
  "serverRequest_reset = \<lparr>sreq_Method = [], sreq_Params = None, sreq_Id = None\<rparr>"

definition serverRequest_put :: "string \<Rightarrow> json \<Rightarrow> serverRequest \<Rightarrow> serverRequest \<times> err" where
  "serverRequest_put f j r =
     (if f = ''method'' then (let (m, e) = decode_string j (sreq_Method r) in (r\<lparr>sreq_Method := m\<rparr>, e))
      else if f = ''params'' then (r\<lparr>sreq_Params := decode_raw j\<rparr>, None)
      else (r\<lparr>sreq_Id := decode_raw j\<rparr>, None))"

definition decode_serverRequest :: "json \<Rightarrow> serverRequest \<Rightarrow> serverRequest \<times> err" where
  "decode_serverRequest = decode_struct [''method'', ''params'', ''id''] serverRequest_put"

text \<open>
  A response object. \<open>Result\<close> and \<open>Error\<close> are interface values: \<open>None\<close> is nil.
\<close>

record serverResponse =
  sresp_Id :: "json option"
  sresp_Result :: "json option"
  sresp_Error :: "string option"

definition encode_serverResponse :: "serverResponse \<Rightarrow> json" where
  "encode_serverResponse r =
     JObj [(''id'', encode_raw (sresp_Id r)),
           (''result'', encode_raw (sresp_Result r)),
           (''error'', (case sresp_Error r of None \<Rightarrow> JNull | Some s \<Rightarrow> json_string s))]"

record jsonServerCodec =
  js_dec :: json_stream
  js_enc :: "json list"
  js_encErr :: err
  js_closed :: bool
  js_closeErr :: err
  js_req :: serverRequest
  js_seq :: u64
  js_pending :: "u64 \<rightharpoonup> json option"

definition NewJsonServerCodec :: "json_stream \<Rightarrow> jsonServerCodec" where
  "NewJsonServerCodec conn =
     \<lparr>js_dec = conn, js_enc = [], js_encErr = None, js_closed = False, js_closeErr = None,
      js_req = serverRequest_reset, js_seq = 0, js_pending = Map.empty\<rparr>"

text \<open>
  The two critical sections under the codec's mutex: a request that was read gets the next
  sequence number and its id is stored under it; a response takes the id out.
\<close>

definition js_register :: "jsonServerCodec \<Rightarrow> json option \<Rightarrow> u64 \<times> jsonServerCodec" where
  "js_register jsc i =
     (let seq = js_seq jsc + 1
      in (seq, jsc\<lparr>js_seq := seq, js_pending := (js_pending jsc)(seq \<mapsto> i)\<rparr>))"

definition js_take :: "jsonServerCodec \<Rightarrow> u64 \<Rightarrow> json option option \<times> jsonServerCodec" where
  "js_take jsc seq =
     (js_pending jsc seq, jsc\<lparr>js_pending := (js_pending jsc)(seq := None)\<rparr>)"

text \<open>The codec, the header (unchanged when the read fails) and the error.\<close>

definition js_ReadRequestHeader ::
  "jsonServerCodec \<Rightarrow> RpcRequest \<Rightarrow> jsonServerCodec \<times> RpcRequest \<times> err" where
  "js_ReadRequestHeader jsc r =
     (case json_next (js_dec jsc) of
        (Inl e, s) \<Rightarrow> (jsc\<lparr>js_req := serverRequest_reset, js_dec := s\<rparr>, r, Some e)
      | (Inr j, s) \<Rightarrow>
          (case decode_serverRequest j serverRequest_reset of
             (q, Some e) \<Rightarrow> (jsc\<lparr>js_req := q, js_dec := s\<rparr>, r, Some e)
           | (q, None) \<Rightarrow>
               let (seq, jsc1) = js_register (jsc\<lparr>js_dec := s, js_req := q\<lparr>sreq_Id := None\<rparr>\<rparr>) (sreq_Id q)
               in (jsc1, r\<lparr>req_ServiceMethod := sreq_Method q, req_Seq := seq\<rparr>, None)))"

text \<open>
  \<^verbatim>\<open>ReadRequestBody(x)\<close>: \<open>x\<close> is nil (\<open>None\<close>) or a pointer to a value; the result is the
  value it points to afterwards and the error. The parameters are an array of which the
  first element is decoded into \<open>x\<close>; a missing element or a \<open>null\<close> leaves \<open>x\<close> alone.
\<close>

definition js_ReadRequestBody ::
  "(json \<Rightarrow> 'v \<Rightarrow> 'v \<times> err) \<Rightarrow> jsonServerCodec \<Rightarrow> 'v option \<Rightarrow> 'v option \<times> err" where
  "js_ReadRequestBody unmarshal jsc x =
     (case x of
        None \<Rightarrow> (None, None)
      | Some v \<Rightarrow>
          (case sreq_Params (js_req jsc) of
             None \<Rightarrow> (x, Some (NewError ''illegal argument for request params''))
           | Some (JArr []) \<Rightarrow> (x, None)
           | Some (JArr (JNull # _)) \<Rightarrow> (x, None)
           | Some (JArr (j # _)) \<Rightarrow> (let (v', e) = unmarshal j v in (Some v', e))
           | Some JNull \<Rightarrow> (x, None)
           | Some _ \<Rightarrow> (x, Some UnmarshalTypeError)))"

text \<open>
  \<^verbatim>\<open>enc.Encode\<close>: one value appended to the connection, unless it cannot be marshalled or
  the connection is broken.
\<close>

definition js_Encode :: "jsonServerCodec \<Rightarrow> go_error + json \<Rightarrow> jsonServerCodec \<times> err" where
  "js_Encode jsc v =
     (case js_encErr jsc of
        Some e \<Rightarrow> (jsc, Some e)
      | None \<Rightarrow> (case v of Inl e \<Rightarrow> (jsc, Some e)
                 | Inr j \<Rightarrow> (jsc\<lparr>js_enc := js_enc jsc @ [j]\<rparr>, None)))"

text \<open>
  \<^verbatim>\<open>WriteResponse(r, x)\<close>: \<open>x\<close> is \<open>Some v\<close> for a reply value and \<open>None\<close> for the server's
  placeholder \<^verbatim>\<open>invalidRequest\<close>, an empty struct.
\<close>

definition marshal_reply :: "('v \<Rightarrow> go_error + json) \<Rightarrow> 'v option \<Rightarrow> go_error + json" where
  "marshal_reply marshal x = (case x of None \<Rightarrow> Inr (JObj []) | Some v \<Rightarrow> marshal v)"

definition js_WriteResponse ::
  "('v \<Rightarrow> go_error + json) \<Rightarrow> jsonServerCodec \<Rightarrow> RpcResponse \<Rightarrow> 'v option \<Rightarrow> jsonServerCodec \<times> err" where
  "js_WriteResponse marshal jsc r x =
     (case js_take jsc (resp_Seq r) of
        (None, _) \<Rightarrow> (jsc, Some (NewError ''invalid sequence number in response''))
      | (Some b, jsc1) \<Rightarrow>
          let b' = (case b of None \<Rightarrow> Some JNull | Some j \<Rightarrow> Some j)
          in if resp_Error r = []
             then js_Encode jsc1
                    (case marshal_reply marshal x of
                       Inl e \<Rightarrow> Inl e
                     | Inr j \<Rightarrow> Inr (encode_serverResponse
                         \<lparr>sresp_Id = b', sresp_Result = Some j, sresp_Error = None\<rparr>))
             else js_Encode jsc1
                    (Inr (encode_serverResponse
                       \<lparr>sresp_Id = b', sresp_Result = None, sresp_Error = Some (resp_Error r)\<rparr>)))"

definition js_Close :: "jsonServerCodec \<Rightarrow> jsonServerCodec \<times> err" where
  "js_Close jsc = (jsc\<lparr>js_closed := True, js_encErr := Some ErrClosed\<rparr>,
     if js_closed jsc then Some ErrClosed else js_closeErr jsc)"

section \<open>The client codec\<close>

record clientRequest =
  creq_Method :: string
  creq_Params :: json
  creq_Id :: u64

definition encode_clientRequest :: "clientRequest \<Rightarrow> json" where
  "encode_clientRequest r =
     JObj [(''method'', json_string (creq_Method r)), (''params'', JArr [creq_Params r]),
           (''id'', encode_uint64 (creq_Id r))]"

record clientResponse =
  cresp_Id :: u64
  cresp_Result :: "json option"
  cresp_Error :: "json option"

definition clientResponse_reset :: clientResponse where
  "clientResponse_reset = \<lparr>cresp_Id = 0, cresp_Result = None, cresp_Error = None\<rparr>"

definition clientResponse_put :: "string \<Rightarrow> json \<Rightarrow> clientResponse \<Rightarrow> clientResponse \<times> err" where
  "clientResponse_put f j r =
     (if f = ''id'' then (let (i, e) = decode_uint64 j (cresp_Id r) in (r\<lparr>cresp_Id := i\<rparr>, e))
      else if f = ''result'' then (r\<lparr>cresp_Result := decode_raw j\<rparr>, None)
      else (r\<lparr>cresp_Error := decode_raw j\<rparr>, None))"

definition decode_clientResponse :: "json \<Rightarrow> clientResponse \<Rightarrow> clientResponse \<times> err" where
  "decode_clientResponse = decode_struct [''id'', ''result'', ''error''] clientResponse_put"

record jsonClientCodec =
  jc_dec :: json_stream
  jc_enc :: "json list"
  jc_encErr :: err
  jc_closed :: bool
  jc_closeErr :: err
  jc_resp :: clientResponse
  jc_pending :: "u64 \<rightharpoonup> string"

definition NewJsonClientCodec :: "json_stream \<Rightarrow> jsonClientCodec" where
  "NewJsonClientCodec conn =
     \<lparr>jc_dec = conn, jc_enc = [], jc_encErr = None, jc_closed = False, jc_closeErr = None,
      jc_resp = clientResponse_reset, jc_pending = Map.empty\<rparr>"

definition jc_WriteRequest ::
  "('v \<Rightarrow> go_error + json) \<Rightarrow> jsonClientCodec \<Rightarrow> RpcRequest \<Rightarrow> 'v \<Rightarrow> jsonClientCodec \<times> err" where
  "jc_WriteRequest marshal c r param =
     (let c1 = c\<lparr>jc_pending := (jc_pending c)(req_Seq r \<mapsto> req_ServiceMethod r)\<rparr>
      in case jc_encErr c1 of
           Some e \<Rightarrow> (c1, Some e)
         | None \<Rightarrow>
             (case marshal param of
                Inl e \<Rightarrow> (c1, Some e)
              | Inr j \<Rightarrow>
                  (c1\<lparr>jc_enc := jc_enc c1 @ [encode_clientRequest
                     \<lparr>creq_Method = req_ServiceMethod r, creq_Params = j, creq_Id = req_Seq r\<rparr>]\<rparr>, None)))"

text \<open>
  \<^verbatim>\<open>ReadResponseHeader\<close>: \<open>show_json\<close> is the text \<^verbatim>\<open>%v\<close> gives of a decoded value, used in
  an error message only.
\<close>

definition jc_ReadResponseHeader ::
  "(json option \<Rightarrow> string) \<Rightarrow> jsonClientCodec \<Rightarrow> RpcResponse \<Rightarrow> jsonClientCodec \<times> RpcResponse \<times> err" where
  "jc_ReadResponseHeader show_json c r =
     (case json_next (jc_dec c) of
        (Inl e, s) \<Rightarrow> (c\<lparr>jc_resp := clientResponse_reset, jc_dec := s\<rparr>, r, Some e)
      | (Inr j, s) \<Rightarrow>
          (case decode_clientResponse j clientResponse_reset of
             (q, Some e) \<Rightarrow> (c\<lparr>jc_resp := q, jc_dec := s\<rparr>, r, Some e)
           | (q, None) \<Rightarrow>
               let m = (case jc_pending c (cresp_Id q) of None \<Rightarrow> [] | Some m \<Rightarrow> m);
                   c1 = c\<lparr>jc_resp := q, jc_dec := s,
                          jc_pending := (jc_pending c)(cresp_Id q := None)\<rparr>;
                   r1 = r\<lparr>resp_ServiceMethod := m, resp_Error := [], resp_Seq := cresp_Id q\<rparr>
               in if cresp_Error q \<noteq> None \<or> cresp_Result q = None
                  then (case cresp_Error q of
                          Some (JStr x) \<Rightarrow>
                            (c1, r1\<lparr>resp_Error := (if x = [] then ''unspecified error'' else x)\<rparr>, None)
                        | e \<Rightarrow> (c1, r1, Some (NewError (''invalid error '' @ show_json e))))
                  else (c1, r1, None)))"

text \<open>
  \<^verbatim>\<open>ReadResponseBody(x)\<close>: nothing for a nil \<open>x\<close>; otherwise the raw result is dereferenced,
  which panics if there is none, and decoded into \<open>x\<close>.
\<close>

definition jc_ReadResponseBody ::
  "(json \<Rightarrow> 'v \<Rightarrow> 'v \<times> err) \<Rightarrow> jsonClientCodec \<Rightarrow> 'v option \<Rightarrow> ('v option \<times> err) outcome" where
  "jc_ReadResponseBody unmarshal c x =
     (case x of
        None \<Rightarrow> Returns (None, None)
      | Some v \<Rightarrow>
          (case cresp_Result (jc_resp c) of
             None \<Rightarrow> Panics ''invalid memory address or nil pointer dereference''
           | Some j \<Rightarrow> (let (v', e) = unmarshal j v in Returns (Some v', e))))"

definition jc_Close :: "jsonClientCodec \<Rightarrow> jsonClientCodec \<times> err" where
  "jc_Close c = (c\<lparr>jc_closed := True, jc_encErr := Some ErrClosed\<rparr>,
     if jc_closed c then Some ErrClosed else jc_closeErr c)"

section \<open>The server codec's table of pending ids\<close>

definition js_invar :: "jsonServerCodec \<Rightarrow> bool" where
  "js_invar jsc \<longleftrightarrow> finite (dom (js_pending jsc)) \<and>
     (\<forall>k \<in> dom (js_pending jsc). k \<le> js_seq jsc)"

lemma js_invar_init: "js_invar (NewJsonServerCodec conn)"
  by (simp add: js_invar_def NewJsonServerCodec_def)

interpretation js: pending_table js_register js_take js_pending "\<lambda>jsc. unat (js_seq jsc)" js_invar
proof unfold_locales
  fix s :: jsonServerCodec and v k
  assume inv: "js_invar s"
  show "finite (dom (js_pending s))" using inv by (simp add: js_invar_def)
  show "fst (js_take s k) = js_pending s k" "js_pending (snd (js_take s k)) = (js_pending s)(k := None)"
    "unat (js_seq (snd (js_take s k))) = unat (js_seq s)"
    by (simp_all add: js_take_def)
  show "js_invar (snd (js_take s k))"
    using inv by (auto simp: js_take_def js_invar_def)
  assume room: "unat (js_seq s) < 2 ^ 64 - 1"
  note suc = u64_Suc [OF room]
  show "js_pending s (fst (js_register s v)) = None"
    using inv suc(1) by (fastforce simp: js_register_def Let_def js_invar_def domIff not_le [symmetric])
  show "js_pending (snd (js_register s v)) = (js_pending s)(fst (js_register s v) \<mapsto> v)"
    by (simp add: js_register_def Let_def)
  show "unat (js_seq (snd (js_register s v))) = Suc (unat (js_seq s))"
    using suc(2) by (simp add: js_register_def Let_def)
  show "js_invar (snd (js_register s v))"
    using inv suc(1) by (auto simp: js_register_def Let_def js_invar_def intro: order_trans less_imp_le)
qed

section \<open>What crosses the wire\<close>

lemma decode_clientRequest_server:
  "coerceUTF8 m = m \<Longrightarrow>
   decode_serverRequest (encode_clientRequest \<lparr>creq_Method = m, creq_Params = j, creq_Id = i\<rparr>) serverRequest_reset
     = (\<lparr>sreq_Method = m, sreq_Params = Some (JArr [j]), sreq_Id = Some (encode_uint64 i)\<rparr>, None)"
  by (simp add: decode_serverRequest_def encode_clientRequest_def decode_struct_def
      serverRequest_put_def serverRequest_reset_def json_string_def decode_raw_def encode_uint64_def)

lemma decode_serverResponse_client:
  "decode_clientResponse (encode_serverResponse
      \<lparr>sresp_Id = Some (encode_uint64 i), sresp_Result = x, sresp_Error = e\<rparr>) clientResponse_reset
     = (\<lparr>cresp_Id = i, cresp_Result = decode_raw (encode_raw x),
         cresp_Error = map_option (\<lambda>s. JStr (coerceUTF8 s)) e\<rparr>, None)"
  by (cases e) (simp_all add: decode_clientResponse_def encode_serverResponse_def decode_struct_def
      clientResponse_put_def clientResponse_reset_def json_string_def decode_raw_def encode_raw_def)

lemma jc_WriteRequest_ok:
  assumes "jc_encErr c = None" "marshal v = Inr j"
  shows "jc_WriteRequest marshal c r v =
    (c\<lparr>jc_pending := (jc_pending c)(req_Seq r \<mapsto> req_ServiceMethod r),
       jc_enc := jc_enc c @ [encode_clientRequest
         \<lparr>creq_Method = req_ServiceMethod r, creq_Params = j, creq_Id = req_Seq r\<rparr>]\<rparr>, None)"
  using assms by (simp add: jc_WriteRequest_def Let_def)

lemma js_ReadRequestHeader_request:
  assumes "js_dec jsc = Inr (encode_clientRequest \<lparr>creq_Method = m, creq_Params = j, creq_Id = i\<rparr>) # rest"
    and "coerceUTF8 m = m"
  shows "js_ReadRequestHeader jsc r =
    (jsc\<lparr>js_dec := rest, js_seq := js_seq jsc + 1,
         js_req := \<lparr>sreq_Method = m, sreq_Params = Some (JArr [j]), sreq_Id = None\<rparr>,
         js_pending := (js_pending jsc)(js_seq jsc + 1 \<mapsto> Some (encode_uint64 i))\<rparr>,
     r\<lparr>req_ServiceMethod := m, req_Seq := js_seq jsc + 1\<rparr>, None)"
  using assms by (simp add: js_ReadRequestHeader_def decode_clientRequest_server js_register_def Let_def)

lemma js_ReadRequestBody_request:
  "sreq_Params (js_req jsc) = Some (JArr [j]) \<Longrightarrow>
   js_ReadRequestBody unmarshal jsc (Some v) =
     (if j = JNull then (Some v, None) else map_prod Some id (unmarshal j v))"
  by (cases j) (simp_all add: js_ReadRequestBody_def split: prod.split)

lemma jc_ReadResponseBody_result:
  "cresp_Result (jc_resp c) = Some j \<Longrightarrow>
   jc_ReadResponseBody unmarshal c (Some v) = Returns (map_prod Some id (unmarshal j v))"
  by (simp add: jc_ReadResponseBody_def split: prod.split)

text \<open>The object a response is written as.\<close>

definition response_json :: "json option \<Rightarrow> string \<Rightarrow> json \<Rightarrow> json" where
  "response_json i e j = encode_serverResponse
     \<lparr>sresp_Id = Some (encode_raw i), sresp_Result = (if e = [] then Some j else None),
      sresp_Error = (if e = [] then None else Some e)\<rparr>"

lemma js_WriteResponse_pending:
  assumes "js_pending jsc (resp_Seq r) = Some i" "js_encErr jsc = None"
    and "resp_Error r = [] \<Longrightarrow> marshal_reply marshal x = Inr j"
  shows "js_WriteResponse marshal jsc r x =
    (jsc\<lparr>js_pending := (js_pending jsc)(resp_Seq r := None),
         js_enc := js_enc jsc @ [response_json i (resp_Error r) j]\<rparr>, None)"
  using assms
  by (cases i) (simp_all add: js_WriteResponse_def js_take_def js_Encode_def response_json_def encode_raw_def Let_def)

lemma jc_ReadResponseHeader_response:
  assumes "jc_dec c = Inr (response_json (Some (encode_uint64 i)) e j) # rest"
    and "e = [] \<Longrightarrow> j \<noteq> JNull" and "coerceUTF8 e = e"
  shows "jc_ReadResponseHeader show_json c r =
    (c\<lparr>jc_dec := rest, jc_pending := (jc_pending c)(i := None),
       jc_resp := \<lparr>cresp_Id = i, cresp_Result = (if e = [] then Some j else None),
                    cresp_Error = (if e = [] then None else Some (JStr e))\<rparr>\<rparr>,
     r\<lparr>resp_ServiceMethod := (case jc_pending c i of None \<Rightarrow> [] | Some m \<Rightarrow> m),
       resp_Error := e, resp_Seq := i\<rparr>, None)"
  using assms
  by (cases "e = []")
    (simp_all add: jc_ReadResponseHeader_def response_json_def encode_raw_def decode_raw_def
      decode_serverResponse_client Let_def)

text \<open>A header read without an error carries an error text or there is a result.\<close>

lemma jc_ReadResponseHeader_ok:
  assumes "jc_ReadResponseHeader show_json c r = (c', r', None)" "resp_Error r' = []"
  shows "\<exists>j. cresp_Result (jc_resp c') = Some j"
  using assms
  by (auto simp: jc_ReadResponseHeader_def Let_def
      split: sum.splits prod.splits option.splits if_splits json.splits)

section \<open>Properties\<close>

text \<open>
  C7. A call through the JSON codecs round-trips. The request the client writes is read by
  the server with the same method and the marshalled argument; the response the server
  writes under the sequence number it gave the request is read by the client with the
  client's own sequence number, the client's method name, the error text the server set
  and, when there is none, the marshalled reply. The server's number and the client's are
  different in general: the id on the wire carries the client's across.
\<close>

theorem json_call_roundtrip:
  assumes "jc_encErr c = None" "js_encErr jsc = None"
    and "coerceUTF8 (req_ServiceMethod r) = req_ServiceMethod r" "coerceUTF8 et = et"
    and "marshal arg = Inr ja" "ja \<noteq> JNull" "marshal_reply marshal reply = Inr jr" "jr \<noteq> JNull"
    and "jc_WriteRequest marshal c r arg = (c1, e1)"
    and "js_dec jsc = map Inr (drop (length (jc_enc c)) (jc_enc c1)) @ rest"
    and "js_ReadRequestHeader jsc zero_RpcRequest = (jsc1, q, e2)"
    and "js_WriteResponse marshal jsc1 (zero_RpcResponse\<lparr>resp_ServiceMethod := req_ServiceMethod q,
           resp_Seq := req_Seq q, resp_Error := et\<rparr>) reply = (jsc2, e3)"
    and "jc_dec c1 = map Inr (drop (length (js_enc jsc1)) (js_enc jsc2)) @ rest'"
    and "jc_ReadResponseHeader show_json c1 zero_RpcResponse = (c2, p, e4)"
  shows "e1 = None \<and> e2 = None \<and> e3 = None \<and> e4 = None
    \<and> req_ServiceMethod q = req_ServiceMethod r \<and> js_ReadRequestBody unmarshal jsc1 (Some x) = map_prod Some id (unmarshal ja x)
    \<and> resp_Seq p = req_Seq r \<and> resp_ServiceMethod p = req_ServiceMethod r \<and> resp_Error p = et
    \<and> (et = [] \<longrightarrow> jc_ReadResponseBody unmarshal c2 (Some y) = Returns (map_prod Some id (unmarshal jr y)))"
proof -
  let ?req = "encode_clientRequest \<lparr>creq_Method = req_ServiceMethod r, creq_Params = ja, creq_Id = req_Seq r\<rparr>"
  have c1: "e1 = None" "jc_enc c1 = jc_enc c @ [?req]"
      "jc_pending c1 = (jc_pending c)(req_Seq r \<mapsto> req_ServiceMethod r)" "jc_dec c1 = jc_dec c"
    using jc_WriteRequest_ok [of c marshal arg ja r] assms(1,5,9) by auto
  have "js_dec jsc = Inr ?req # rest" using assms(10) c1(2) by simp
  from js_ReadRequestHeader_request [OF this assms(3), of zero_RpcRequest] assms(11)
  have q: "e2 = None" "req_ServiceMethod q = req_ServiceMethod r"
      "js_pending jsc1 (req_Seq q) = Some (Some (encode_uint64 (req_Seq r)))"
      "sreq_Params (js_req jsc1) = Some (JArr [ja])" "js_encErr jsc1 = None"
    using assms(2) by auto
  have w: "e3 = None" "js_enc jsc2 = js_enc jsc1 @ [response_json (Some (encode_uint64 (req_Seq r))) et jr]"
    using js_WriteResponse_pending [where jsc = jsc1 and x = reply and j = jr and marshal = marshal
        and i = "Some (encode_uint64 (req_Seq r))"
        and r = "zero_RpcResponse\<lparr>resp_ServiceMethod := req_ServiceMethod q, resp_Seq := req_Seq q, resp_Error := et\<rparr>"]
      q(3,5) assms(7,12) by auto
  have "jc_dec c1 = Inr (response_json (Some (encode_uint64 (req_Seq r))) et jr) # rest'"
    using assms(13) w(2) by simp
  note h = jc_ReadResponseHeader_response [OF this, of show_json zero_RpcResponse]
  have "js_ReadRequestBody unmarshal jsc1 (Some x) = map_prod Some id (unmarshal ja x)"
    using js_ReadRequestBody_request [OF q(4)] assms(6) by simp
  moreover have "e4 = None \<and> resp_Seq p = req_Seq r \<and> resp_ServiceMethod p = req_ServiceMethod r
      \<and> resp_Error p = et \<and> (et = [] \<longrightarrow> jc_ReadResponseBody unmarshal c2 (Some y) = Returns (map_prod Some id (unmarshal jr y)))"
    using h assms(4,8,14) c1(3) by (auto simp: jc_ReadResponseBody_result)
  ultimately show ?thesis using c1(1) q(1,2) w(1) by blast
qed

text \<open>A value type for the examples: its JSON form is itself.\<close>

definition demo_client :: jsonClientCodec where
  "demo_client = NewJsonClientCodec [Inr (response_json (Some (encode_uint64 7)) [] (JStr ''pong''))]"

definition demo_request :: RpcRequest where
  "demo_request = zero_RpcRequest\<lparr>req_ServiceMethod := ''Echo.Ping'', req_Seq := 7\<rparr>"

definition demo_server :: jsonServerCodec where
  "demo_server = NewJsonServerCodec [Inr (encode_clientRequest
     \<lparr>creq_Method = ''Echo.Ping'', creq_Params = JStr ''ping'', creq_Id = 7\<rparr>)]"

theorem json_call_roundtrip_witness:
  "\<exists>c1 jsc1 q jsc2 c2 p.
    jc_WriteRequest Inr demo_client demo_request (JStr ''ping'') = (c1, None) \<and>
    js_ReadRequestHeader demo_server zero_RpcRequest = (jsc1, q, None) \<and>
    js_WriteResponse Inr jsc1 (zero_RpcResponse\<lparr>resp_ServiceMethod := req_ServiceMethod q,
       resp_Seq := req_Seq q, resp_Error := []\<rparr>) (Some (JStr ''pong'')) = (jsc2, None) \<and>
    jc_ReadResponseHeader (\<lambda>_. []) c1 zero_RpcResponse = (c2, p, None) \<and>
    req_Seq q = 1 \<and> resp_Seq p = 7 \<and> resp_ServiceMethod p = ''Echo.Ping'' \<and>
    jc_ReadResponseBody (\<lambda>j v. (j, None)) c2 (Some JNull) = Returns (Some (JStr ''pong''), None)"
proof -
  obtain c1 e1 where 1: "jc_WriteRequest Inr demo_client demo_request (JStr ''ping'') = (c1, e1)" by fastforce
  obtain jsc1 q e2 where 2: "js_ReadRequestHeader demo_server zero_RpcRequest = (jsc1, q, e2)"
    by (metis prod_cases3)
  obtain jsc2 e3 where 3: "js_WriteResponse Inr jsc1 (zero_RpcResponse\<lparr>resp_ServiceMethod := req_ServiceMethod q,
       resp_Seq := req_Seq q, resp_Error := []\<rparr>) (Some (JStr ''pong'')) = (jsc2, e3)" by fastforce
  obtain c2 p e4 where 4: "jc_ReadResponseHeader (\<lambda>_. []) c1 zero_RpcResponse = (c2, p, e4)"
    by (metis prod_cases3)
  have utf8: "coerceUTF8 ''Echo.Ping'' = ''Echo.Ping''" "coerceUTF8 [] = []"
    by (simp_all add: coerceUTF8_ascii)
  have c1: "jc_enc c1 = [encode_clientRequest \<lparr>creq_Method = ''Echo.Ping'', creq_Params = JStr ''ping'', creq_Id = 7\<rparr>]"
    "jc_dec c1 = jc_dec demo_client"
    using 1 by (auto simp: jc_WriteRequest_def demo_client_def demo_request_def NewJsonClientCodec_def Let_def)
  have jsc1: "js_pending jsc1 = [1 \<mapsto> Some (encode_uint64 7)]" "js_enc jsc1 = []" "js_encErr jsc1 = None" "req_Seq q = 1"
    using 2 by (auto simp: demo_server_def NewJsonServerCodec_def js_ReadRequestHeader_request [OF _ utf8(1)])
  have jsc2: "js_enc jsc2 = [response_json (Some (encode_uint64 7)) [] (JStr ''pong'')]"
    using 3 jsc1 js_WriteResponse_pending [where jsc = jsc1 and i = "Some (encode_uint64 7)" and x = "Some (JStr ''pong'')"
        and r = "zero_RpcResponse\<lparr>resp_ServiceMethod := req_ServiceMethod q, resp_Seq := req_Seq q, resp_Error := []\<rparr>"
        and marshal = Inr and j = "JStr ''pong''"]
    by (auto simp: marshal_reply_def)
  have "e1 = None \<and> e2 = None \<and> e3 = None \<and> e4 = None
    \<and> req_ServiceMethod q = req_ServiceMethod demo_request
    \<and> js_ReadRequestBody (\<lambda>j v. (j, None)) jsc1 (Some JNull) = map_prod Some id (JStr ''ping'', None)
    \<and> resp_Seq p = req_Seq demo_request \<and> resp_ServiceMethod p = req_ServiceMethod demo_request \<and> resp_Error p = []
    \<and> (([] :: string) = [] \<longrightarrow> jc_ReadResponseBody (\<lambda>j v. (j, None)) c2 (Some JNull) = Returns (map_prod Some id (JStr ''pong'', None)))"
    by (rule json_call_roundtrip [where unmarshal = "\<lambda>j v. (j, None)" and ja = "JStr ''ping''" and jr = "JStr ''pong''"
          and rest = "[]" and rest' = "[]", OF _ _ _ _ _ _ _ _ 1 _ 2 3 _ 4])
      (simp_all add: c1 jsc1 jsc2 utf8 marshal_reply_def demo_client_def demo_server_def demo_request_def
        NewJsonClientCodec_def NewJsonServerCodec_def)
  then show ?thesis using 1 2 3 4 jsc1 by (auto simp: demo_request_def)
qed

text \<open>
  C38. A reply that marshals to JSON \<open>null\<close> cannot be delivered: the client finds neither an
  error nor a result and reports an invalid response header, which ends its receive loop
  and with it every call on the connection.
\<close>

theorem json_null_reply_fails:
  assumes "js_pending jsc (resp_Seq r) = Some (Some (encode_uint64 i))" "js_encErr jsc = None"
    and "resp_Error r = []" "marshal v = Inr JNull"
    and "js_WriteResponse marshal jsc r (Some v) = (jsc1, e1)"
    and "jc_dec c = map Inr (drop (length (js_enc jsc)) (js_enc jsc1)) @ rest"
  shows "e1 = None \<and> snd (snd (jc_ReadResponseHeader show_json c p)) = Some (NewError (''invalid error '' @ show_json None))"
  using assms js_WriteResponse_pending [of jsc r "Some (encode_uint64 i)" marshal "Some v" JNull]
  by (auto simp: marshal_reply_def jc_ReadResponseHeader_def response_json_def encode_raw_def
      decode_serverResponse_client decode_raw_def Let_def)

theorem json_null_reply_fails_witness:
  "snd (snd (jc_ReadResponseHeader (\<lambda>_. ''<nil>'')
     (NewJsonClientCodec [Inr (response_json (Some (encode_uint64 7)) [] JNull)]) zero_RpcResponse))
   = Some (NewError ''invalid error <nil>'')"
proof -
  let ?s = "(NewJsonServerCodec [])\<lparr>js_pending := [1 \<mapsto> Some (encode_uint64 7)]\<rparr>"
  let ?r = "zero_RpcResponse\<lparr>resp_Seq := 1\<rparr>"
  have w: "js_WriteResponse Inr ?s ?r (Some JNull)
      = (?s\<lparr>js_pending := Map.empty, js_enc := [response_json (Some (encode_uint64 7)) [] JNull]\<rparr>, None)"
    using js_WriteResponse_pending [where jsc = ?s and r = ?r and i = "Some (encode_uint64 7)"
        and marshal = Inr and x = "Some JNull" and j = JNull]
    by (simp add: NewJsonServerCodec_def zero_RpcResponse_def marshal_reply_def)
  show ?thesis
    using json_null_reply_fails [OF _ _ _ _ w, of 7
        "NewJsonClientCodec [Inr (response_json (Some (encode_uint64 7)) [] JNull)]" "[]" "\<lambda>_. ''<nil>''" zero_RpcResponse]
    by (simp add: NewJsonServerCodec_def NewJsonClientCodec_def zero_RpcResponse_def)
qed

text \<open>
  The client never dereferences a missing result: whatever value the peer sent, after a
  header that was read without an error and carries no error text, reading the body
  unmarshals a result into the reply and does not panic.
\<close>

lemma json_body_no_panic:
  assumes "jc_ReadResponseHeader show_json c r = (c', r', None)" "resp_Error r' = []"
  shows "\<exists>j. jc_ReadResponseBody unmarshal c' (Some v) = Returns (map_prod Some id (unmarshal j v))"
proof -
  obtain j where "cresp_Result (jc_resp c') = Some j" using jc_ReadResponseHeader_ok [OF assms] by blast
  from jc_ReadResponseBody_result [OF this, of unmarshal v] show ?thesis by blast
qed

lemma json_body_no_panic_witness:
  "\<exists>j. jc_ReadResponseBody (\<lambda>j v. (j, None))
     (fst (jc_ReadResponseHeader (\<lambda>_. []) demo_client zero_RpcResponse)) (Some JNull) = Returns (Some j, None)"
proof -
  have "coerceUTF8 [] = []" by (simp add: coerceUTF8_ascii)
  then have h: "jc_ReadResponseHeader (\<lambda>_. []) demo_client zero_RpcResponse =
      (fst (jc_ReadResponseHeader (\<lambda>_. []) demo_client zero_RpcResponse),
       zero_RpcResponse\<lparr>resp_Seq := 7\<rparr>, None)"
    using jc_ReadResponseHeader_response [of demo_client 7 "[]" "JStr ''pong''" "[]" "\<lambda>_. []" zero_RpcResponse]
    by (simp add: demo_client_def NewJsonClientCodec_def zero_RpcResponse_def)
  show ?thesis
    using json_body_no_panic [OF h, of "\<lambda>j v. (j, None)" JNull] by (simp add: zero_RpcResponse_def)
qed

text \<open>
  The server codec answers every request at most once: after a response was written (or
  refused) for a sequence number, a second response for it is refused with an error and
  leaves the codec and the wire alone.
\<close>

lemma js_WriteResponse_once:
  assumes "js_WriteResponse marshal jsc r x = (jsc1, e1)" "resp_Seq r' = resp_Seq r"
  shows "js_WriteResponse marshal' jsc1 r' x'
    = (jsc1, Some (NewError ''invalid sequence number in response''))"
  using assms
  by (auto simp: js_WriteResponse_def js_take_def js_Encode_def Let_def
      split: option.splits if_splits sum.splits)

lemma js_WriteResponse_once_witness:
  "js_WriteResponse Inr (fst (js_WriteResponse Inr ((NewJsonServerCodec [])\<lparr>js_pending := [1 \<mapsto> None]\<rparr>)
       (zero_RpcResponse\<lparr>resp_Seq := 1\<rparr>) (Some JNull))) (zero_RpcResponse\<lparr>resp_Seq := 1\<rparr>) (Some JNull)
   = (fst (js_WriteResponse Inr ((NewJsonServerCodec [])\<lparr>js_pending := [1 \<mapsto> None]\<rparr>)
       (zero_RpcResponse\<lparr>resp_Seq := 1\<rparr>) (Some JNull)), Some (NewError ''invalid sequence number in response''))"
  by (rule js_WriteResponse_once [OF prod.collapse [symmetric] refl])

text \<open>
  C28. The table of pending ids loses and duplicates nothing: over any sequence of requests
  read and responses written on a fresh codec, fewer than \<open>2 ^ 64\<close> of them requests, the
  ids taken out for responses together with those still pending are exactly the ids of the
  requests.
\<close>

theorem js_pending_conservation:
  assumes "length (issued ops) < 2 ^ 64"
    and "run_table js_register js_take (NewJsonServerCodec conn) ops = (ids, jsc)"
  shows "mset ids + entries (js_pending jsc) = mset (issued ops)"
  using js.conservation [OF js_invar_init _ assms(2)] assms(1)
  by (simp add: NewJsonServerCodec_def)

theorem js_pending_conservation_witness:
  "mset (fst (run_table js_register js_take (NewJsonServerCodec []) [Issue (Some JNull), Issue None, Take 1]))
   + entries (js_pending (snd (run_table js_register js_take (NewJsonServerCodec []) [Issue (Some JNull), Issue None, Take 1])))
   = {#Some JNull, None#}"
  using js_pending_conservation [OF _ prod.collapse [symmetric],
      of "[Issue (Some JNull), Issue None, Take 1]" "[]"]
  by simp

end
