(* ===== verification/ClientJson.thy ===== *)
theory ClientJson
  imports RpcClient JsonCodec
begin

text \<open>
  The client on the JSON codec: \<^verbatim>\<open>NewClientWithCodec\<close> applied to \<^verbatim>\<open>NewJsonClientCodec\<close>. The
  codec of \<^verbatim>\<open>src/json_codec.go\<close> is given as a value of the interface \<^verbatim>\<open>ClientCodec\<close>, and
  the receive loop is shown to end on every finite input with every pending call failed.
\<close>

definition json_ClientCodec ::
  "('v \<Rightarrow> go_error + json) \<Rightarrow> (json \<Rightarrow> 'v \<Rightarrow> 'v \<times> err) \<Rightarrow> (json option \<Rightarrow> string)
     \<Rightarrow> (jsonClientCodec, 'v) ClientCodec" where
  "json_ClientCodec marshal unmarshal show_json =
     \<lparr>WriteRequest = jc_WriteRequest marshal,
      ReadResponseHeader = jc_ReadResponseHeader show_json,
      ReadResponseBody = (\<lambda>c x. case jc_ReadResponseBody unmarshal c x of
         Returns (y, e) \<Rightarrow> Returns (c, y, e) | Panics m \<Rightarrow> Panics m | Blocks \<Rightarrow> Blocks),
      CloseCodec = jc_Close\<rparr>"

lemma json_next_Inr: "json_next s = (Inr j, s') \<Longrightarrow> s = Inr j # s'"
  by (cases s rule: json_next.cases) auto

lemma jc_ReadResponseHeader_uses_input:
  "jc_ReadResponseHeader show_json c r = (c', resp, None) \<Longrightarrow> length (jc_dec c') < length (jc_dec c)"
  by (auto simp: jc_ReadResponseHeader_def Let_def dest!: json_next_Inr
      split: sum.splits prod.splits option.splits if_splits json.splits)

interpretation json: client_codec "json_ClientCodec marshal unmarshal show_json" "\<lambda>c. length (jc_dec c)"
  for marshal unmarshal show_json
proof
  fix c c' resp and x :: "'a option"
  assume "ReadResponseHeader (json_ClientCodec marshal unmarshal show_json) c zero_RpcResponse = (c', resp, None)"
  then have h: "jc_ReadResponseHeader show_json c zero_RpcResponse = (c', resp, None)"
    by (simp add: json_ClientCodec_def)
  then show "length (jc_dec c') < length (jc_dec c)" by (rule jc_ReadResponseHeader_uses_input)
  assume x: "x = None \<or> resp_Error resp = []"
  show "\<exists>c2 y e. ReadResponseBody (json_ClientCodec marshal unmarshal show_json) c' x = Returns (c2, y, e)
      \<and> length (jc_dec c2) \<le> length (jc_dec c')"
  proof (cases x)
    case None
    then show ?thesis by (simp add: json_ClientCodec_def jc_ReadResponseBody_def)
  next
    case (Some v)
    then obtain j where "cresp_Result (jc_resp c') = Some j" using jc_ReadResponseHeader_ok [OF h] x by auto
    from jc_ReadResponseBody_result [OF this, of unmarshal v] show ?thesis
      using Some by (cases "unmarshal j v") (simp add: json_ClientCodec_def)
  qed
qed

text \<open>
  C12. On the JSON codec the receive loop ends: for every input, finite as it is when the
  connection ends, \<^verbatim>\<open>receive\<close> returns within one iteration more than there are values in
  it, without a panic whatever the peer sent; the client is then shut down and every call
  still pending has been completed with the error that ended the loop.
\<close>

theorem json_receive_returns:
  assumes "plugins (cl_plugins cl) = Map.empty" "finite (dom (pending cl))"
    and "\<And>cl'. finite (dom (pending cl')) \<Longrightarrow> range_order (pending cl') (ks cl')"
  shows "\<exists>cl'. receive (json_ClientCodec marshal unmarshal show_json) ([], []) ks (Suc (length (jc_dec (codec cl)))) cl
      = Some (Returns cl') \<and> shutdown cl' \<and> ran (pending cl') \<subseteq> set (donelog cl')
    \<and> (\<exists>e. \<forall>c \<in> ran (pending cl'). call_Error (calls cl' c) = Some e)"
  by (rule json.receive_returns [OF assms(1) _ assms(2,3)]) simp_all

theorem json_receive_returns_witness:
  "\<exists>cl'. receive (json_ClientCodec Inr (\<lambda>j v. (j, None)) (\<lambda>_. [])) ([], [])
      (\<lambda>cl. sorted_list_of_set (dom (pending cl))) 2
      ((NewClientWithCodec \<lparr>call_ServiceMethod = [], call_Args = JNull, call_Reply = None, call_Error = None, call_Done = 0\<rparr>
         demo_client ())\<lparr>pending := [3 \<mapsto> 4]\<rparr>) = Some (Returns cl') \<and> shutdown cl'"
  using json_receive_returns [where ks = "\<lambda>cl. sorted_list_of_set (dom (pending cl))"
      and cl = "(NewClientWithCodec \<lparr>call_ServiceMethod = [], call_Args = JNull, call_Reply = None, call_Error = None, call_Done = 0\<rparr>
         demo_client ())\<lparr>pending := [3 \<mapsto> 4]\<rparr>"
      and marshal = Inr and unmarshal = "\<lambda>j v. (j, None)" and show_json = "\<lambda>_. []"]
  by (auto simp: NewClientWithCodec_def newClientPluginManager_def demo_client_def NewJsonClientCodec_def
      range_order_def numeral_2_eq_2)

end
