(* ===== verification/GobCodec.thy ===== *)
theory GobCodec
  imports RpcClient
begin

text \<open>
  The gob codecs of \<^verbatim>\<open>src/gob_codec.go\<close>, at the level of the values a gob stream carries. A
  struct is sent as its type, the names and kinds of its exported fields, and the fields that
  are not zero; decoding matches fields by name and leaves the others of the target alone.
  The values of the RPC methods' own types are of type \<open>'v\<close>; their gob forms are the
  parameters \<open>marshal\<close> and \<open>unmarshal\<close>. A nil pointer, on which \<^verbatim>\<open>Encode\<close> panics, is not among
  these values.
\<close>

section \<open>Package encoding/gob\<close>

datatype gkind = GKString | GKUint | GKOther nat

datatype gobval =
    GUint u64
  | GString string
  | GOther nat
  | GStruct "(string \<times> gkind) list" "(string \<times> gobval) list"

text \<open>A stream: values, and the error that ends it if it does not end with \<^verbatim>\<open>io.EOF\<close>.\<close>

type_synonym gob_stream = "(go_error + gobval) list"

fun gob_next :: "gob_stream \<Rightarrow> (go_error + gobval) \<times> gob_stream" where
  "gob_next [] = (Inl EOF, [])"
| "gob_next (Inl e # s) = (Inl e, Inl e # s)"
| "gob_next (Inr v # s) = (Inr v, s)"

definition string_field :: "string \<Rightarrow> string \<Rightarrow> (string \<times> gobval) list" where
  "string_field f s = (if s = [] then [] else [(f, GString s)])"

definition uint_field :: "string \<Rightarrow> u64 \<Rightarrow> (string \<times> gobval) list" where
  "uint_field f n = (if n = 0 then [] else [(f, GUint n)])"

text \<open>
  Decoding into a struct with the fields \<open>flds\<close>: a field of the same name and another kind,
  no common field at all, or a value that is no struct, is a type mismatch.
\<close>

definition gob_mismatch :: go_error where
  "gob_mismatch = NewError ''gob: type mismatch''"

fun gob_put_fields :: "string list \<Rightarrow> (string \<Rightarrow> gobval \<Rightarrow> 's \<Rightarrow> 's) \<Rightarrow> (string \<times> gobval) list \<Rightarrow> 's \<Rightarrow> 's" where
  "gob_put_fields names put [] s = s"
| "gob_put_fields names put ((f, v) # vs) s =
     gob_put_fields names put vs (if f \<in> set names then put f v s else s)"

definition gob_decode_struct ::
  "(string \<times> gkind) list \<Rightarrow> (string \<Rightarrow> gobval \<Rightarrow> 's \<Rightarrow> 's) \<Rightarrow> gobval \<Rightarrow> 's \<Rightarrow> 's \<times> err" where
  "gob_decode_struct flds put v s =
     (case v of
        GStruct ty vs \<Rightarrow>
          if list_ex (\<lambda>fk. fst fk \<in> set (map fst flds) \<and> fk \<notin> set flds) ty then (s, Some gob_mismatch)
          else if ty \<noteq> [] \<and> list_all (\<lambda>fk. fst fk \<notin> set (map fst flds)) ty then (s, Some gob_mismatch)
          else (gob_put_fields (map fst flds) put vs s, None)
      | _ \<Rightarrow> (s, Some gob_mismatch))"

subsection \<open>The headers\<close>

definition request_fields :: "(string \<times> gkind) list" where
  "request_fields = [(''ServiceMethod'', GKString), (''Seq'', GKUint)]"

definition response_fields :: "(string \<times> gkind) list" where
  "response_fields = [(''ServiceMethod'', GKString), (''Seq'', GKUint), (''Error'', GKString)]"

definition gob_RpcRequest :: "RpcRequest \<Rightarrow> gobval" where
  "gob_RpcRequest r = GStruct request_fields
     (string_field ''ServiceMethod'' (req_ServiceMethod r) @ uint_field ''Seq'' (req_Seq r))"

definition gob_RpcResponse :: "RpcResponse \<Rightarrow> gobval" where
  "gob_RpcResponse r = GStruct response_fields
     (string_field ''ServiceMethod'' (resp_ServiceMethod r) @ uint_field ''Seq'' (resp_Seq r)
      @ string_field ''Error'' (resp_Error r))"

definition put_RpcRequest :: "string \<Rightarrow> gobval \<Rightarrow> RpcRequest \<Rightarrow> RpcRequest" where
  "put_RpcRequest f v r =
     (case v of
        GString s \<Rightarrow> if f = ''ServiceMethod'' then r\<lparr>req_ServiceMethod := s\<rparr> else r
      | GUint n \<Rightarrow> if f = ''Seq'' then r\<lparr>req_Seq := n\<rparr> else r
      | _ \<Rightarrow> r)"

definition put_RpcResponse :: "string \<Rightarrow> gobval \<Rightarrow> RpcResponse \<Rightarrow> RpcResponse" where
  "put_RpcResponse f v r =
     (case v of
        GString s \<Rightarrow> if f = ''ServiceMethod'' then r\<lparr>resp_ServiceMethod := s\<rparr>
                     else if f = ''Error'' then r\<lparr>resp_Error := s\<rparr> else r
      | GUint n \<Rightarrow> if f = ''Seq'' then r\<lparr>resp_Seq := n\<rparr> else r
      | _ \<Rightarrow> r)"

text \<open>\<^verbatim>\<open>Decode\<close> into a header, and into a body, where nil (\<open>None\<close>) discards the next value.\<close>

definition gob_Decode :: "(gobval \<Rightarrow> 's \<Rightarrow> 's \<times> err) \<Rightarrow> gob_stream \<Rightarrow> 's \<Rightarrow> gob_stream \<times> 's \<times> err" where
  "gob_Decode dec s x =
     (case gob_next s of
        (Inl e, s') \<Rightarrow> (s', x, Some e)
      | (Inr v, s') \<Rightarrow> (let (y, e) = dec v x in (s', y, e)))"

definition gob_body :: "(gobval \<Rightarrow> 'v \<Rightarrow> 'v \<times> err) \<Rightarrow> gobval \<Rightarrow> 'v option \<Rightarrow> 'v option \<times> err" where
  "gob_body unmarshal v x =
     (case x of None \<Rightarrow> (None, None) | Some y \<Rightarrow> (let (z, e) = unmarshal v y in (Some z, e)))"

section \<open>The server codec\<close>

text \<open>
  \<open>gs_enc\<close> are the values written to the connection, \<open>gs_encErr\<close> the error its writes report
  if it is broken, \<open>gs_closes\<close> how often it was closed and \<open>gs_closeErr\<close> what closing it
  reports. The encoder writes to the connection,
  not to \<^verbatim>\<open>encBuf\<close>, in which \<open>gs_encBuf\<close> values wait.
\<close>

record gobServerCodec =
  gs_dec :: gob_stream
  gs_enc :: "gobval list"
  gs_encErr :: err
  gs_closes :: nat
  gs_closeErr :: err
  gs_encBuf :: "gobval list"
  gs_closed :: bool

definition NewGobServerCodec :: "gob_stream \<Rightarrow> gobServerCodec" where
  "NewGobServerCodec conn =
     \<lparr>gs_dec = conn, gs_enc = [], gs_encErr = None, gs_closes = 0, gs_closeErr = None, gs_encBuf = [], gs_closed = False\<rparr>"

definition gs_ReadRequestHeader :: "gobServerCodec \<Rightarrow> RpcRequest \<Rightarrow> gobServerCodec \<times> RpcRequest \<times> err" where
  "gs_ReadRequestHeader gsc r =
     (let (s, r', e) = gob_Decode (gob_decode_struct request_fields put_RpcRequest) (gs_dec gsc) r
      in (gsc\<lparr>gs_dec := s\<rparr>, r', e))"

definition gs_ReadRequestBody ::
  "(gobval \<Rightarrow> 'v \<Rightarrow> 'v \<times> err) \<Rightarrow> gobServerCodec \<Rightarrow> 'v option \<Rightarrow> gobServerCodec \<times> 'v option \<times> err" where
  "gs_ReadRequestBody unmarshal gsc body =
     (let (s, x, e) = gob_Decode (gob_body unmarshal) (gs_dec gsc) body in (gsc\<lparr>gs_dec := s\<rparr>, x, e))"

text \<open>
  \<^verbatim>\<open>enc.Encode\<close>: a value that cannot be encoded is refused before anything is written. After
  a close every write fails.
\<close>

definition gs_Encode :: "gobServerCodec \<Rightarrow> go_error + gobval \<Rightarrow> gobServerCodec \<times> err" where
  "gs_Encode gsc x =
     (case x of
        Inl e \<Rightarrow> (gsc, Some e)
      | Inr v \<Rightarrow> if 0 < gs_closes gsc then (gsc, Some ErrClosed)
                 else (case gs_encErr gsc of
                         Some e \<Rightarrow> (gsc, Some e)
                       | None \<Rightarrow> (gsc\<lparr>gs_enc := gs_enc gsc @ [v]\<rparr>, None)))"

definition gs_Flush :: "gobServerCodec \<Rightarrow> gobServerCodec \<times> err" where
  "gs_Flush gsc =
     (if gs_encBuf gsc = [] then (gsc, None)
      else if 0 < gs_closes gsc then (gsc, Some ErrClosed)
      else (case gs_encErr gsc of
              Some e \<Rightarrow> (gsc, Some e)
            | None \<Rightarrow> (gsc\<lparr>gs_enc := gs_enc gsc @ gs_encBuf gsc, gs_encBuf := []\<rparr>, None)))"

definition gs_Close :: "gobServerCodec \<Rightarrow> gobServerCodec \<times> err" where
  "gs_Close gsc =
     (if gs_closed gsc then (gsc, None)
      else (gsc\<lparr>gs_closed := True, gs_closes := Suc (gs_closes gsc)\<rparr>, gs_closeErr gsc))"

text \<open>After an error the connection is closed if the buffer can be flushed.\<close>

definition gs_fail :: "gobServerCodec \<Rightarrow> go_error \<Rightarrow> gobServerCodec \<times> err" where
  "gs_fail gsc e =
     (case gs_Flush gsc of
        (gsc1, None) \<Rightarrow> (fst (gs_Close gsc1), Some e)
      | (gsc1, Some _) \<Rightarrow> (gsc1, Some e))"

text \<open>The body is \<open>Some v\<close> for a reply and \<open>None\<close> for \<^verbatim>\<open>invalidRequest\<close>, an empty struct.\<close>

definition gob_reply :: "('v \<Rightarrow> go_error + gobval) \<Rightarrow> 'v option \<Rightarrow> go_error + gobval" where
  "gob_reply marshal x = (case x of None \<Rightarrow> Inr (GStruct [] []) | Some v \<Rightarrow> marshal v)"

definition gs_WriteResponse ::
  "('v \<Rightarrow> go_error + gobval) \<Rightarrow> gobServerCodec \<Rightarrow> RpcResponse \<Rightarrow> 'v option \<Rightarrow> gobServerCodec \<times> err" where
  "gs_WriteResponse marshal gsc r body =
     (case gs_Encode gsc (Inr (gob_RpcResponse r)) of
        (gsc1, Some e) \<Rightarrow> gs_fail gsc1 e
      | (gsc1, None) \<Rightarrow>
          (case gs_Encode gsc1 (gob_reply marshal body) of
             (gsc2, Some e) \<Rightarrow> gs_fail gsc2 e
           | (gsc2, None) \<Rightarrow> gs_Flush gsc2))"

section \<open>The client codec\<close>

record gobClientCodec =
  gc_dec :: gob_stream
  gc_enc :: "gobval list"
  gc_encErr :: err
  gc_closes :: nat
  gc_closeErr :: err
  gc_encBuf :: "gobval list"

definition NewGobClientCodec :: "gob_stream \<Rightarrow> gobClientCodec" where
  "NewGobClientCodec conn = \<lparr>gc_dec = conn, gc_enc = [], gc_encErr = None, gc_closes = 0, gc_closeErr = None, gc_encBuf = []\<rparr>"

definition gc_Encode :: "gobClientCodec \<Rightarrow> go_error + gobval \<Rightarrow> gobClientCodec \<times> err" where
  "gc_Encode c x =
     (case x of
        Inl e \<Rightarrow> (c, Some e)
      | Inr v \<Rightarrow> if 0 < gc_closes c then (c, Some ErrClosed)
                 else (case gc_encErr c of
                         Some e \<Rightarrow> (c, Some e)
                       | None \<Rightarrow> (c\<lparr>gc_enc := gc_enc c @ [v]\<rparr>, None)))"

definition gc_Flush :: "gobClientCodec \<Rightarrow> gobClientCodec \<times> err" where
  "gc_Flush c =
     (if gc_encBuf c = [] then (c, None)
      else if 0 < gc_closes c then (c, Some ErrClosed)
      else (case gc_encErr c of
              Some e \<Rightarrow> (c, Some e)
            | None \<Rightarrow> (c\<lparr>gc_enc := gc_enc c @ gc_encBuf c, gc_encBuf := []\<rparr>, None)))"

definition gc_WriteRequest ::
  "('v \<Rightarrow> go_error + gobval) \<Rightarrow> gobClientCodec \<Rightarrow> RpcRequest \<Rightarrow> 'v \<Rightarrow> gobClientCodec \<times> err" where
  "gc_WriteRequest marshal c r body =
     (case gc_Encode c (Inr (gob_RpcRequest r)) of
        (c1, Some e) \<Rightarrow> (c1, Some e)
      | (c1, None) \<Rightarrow>
          (case gc_Encode c1 (marshal body) of
             (c2, Some e) \<Rightarrow> (c2, Some e)
           | (c2, None) \<Rightarrow> gc_Flush c2))"

definition gc_ReadResponseHeader :: "gobClientCodec \<Rightarrow> RpcResponse \<Rightarrow> gobClientCodec \<times> RpcResponse \<times> err" where
  "gc_ReadResponseHeader c r =
     (let (s, r', e) = gob_Decode (gob_decode_struct response_fields put_RpcResponse) (gc_dec c) r
      in (c\<lparr>gc_dec := s\<rparr>, r', e))"

definition gc_ReadResponseBody ::
  "(gobval \<Rightarrow> 'v \<Rightarrow> 'v \<times> err) \<Rightarrow> gobClientCodec \<Rightarrow> 'v option \<Rightarrow> gobClientCodec \<times> 'v option \<times> err" where
  "gc_ReadResponseBody unmarshal c body =
     (let (s, x, e) = gob_Decode (gob_body unmarshal) (gc_dec c) body in (c\<lparr>gc_dec := s\<rparr>, x, e))"

definition gc_Close :: "gobClientCodec \<Rightarrow> gobClientCodec \<times> err" where
  "gc_Close c = (c\<lparr>gc_closes := Suc (gc_closes c)\<rparr>, if 0 < gc_closes c then Some ErrClosed else gc_closeErr c)"

text \<open>The two codecs as values of the client's interface, and \<^verbatim>\<open>NewClient\<close> on a connection.\<close>

definition gob_ClientCodec ::
  "('v \<Rightarrow> go_error + gobval) \<Rightarrow> (gobval \<Rightarrow> 'v \<Rightarrow> 'v \<times> err) \<Rightarrow> (gobClientCodec, 'v) ClientCodec" where
  "gob_ClientCodec marshal unmarshal =
     \<lparr>WriteRequest = gc_WriteRequest marshal, ReadResponseHeader = gc_ReadResponseHeader,
      ReadResponseBody = (\<lambda>c x. Returns (gc_ReadResponseBody unmarshal c x)), CloseCodec = gc_Close\<rparr>"

definition NewClient :: "'v Call \<Rightarrow> gob_stream \<Rightarrow> 'w \<Rightarrow> (gobClientCodec, 'w, 'v) Client" where
  "NewClient nocall conn w = NewClientWithCodec nocall (NewGobClientCodec conn) w"

text \<open>\<^verbatim>\<open>Connect\<close>; \<open>dial\<close> is \<^verbatim>\<open>net.Dial\<close>.\<close>

definition Connect ::
  "(string \<Rightarrow> string \<Rightarrow> go_error + gob_stream) \<Rightarrow> 'v Call \<Rightarrow> 'w \<Rightarrow> string \<Rightarrow> string
     \<Rightarrow> go_error + (gobClientCodec, 'w, 'v) Client" where
  "Connect dial nocall w network address =
     (case dial network address of Inl e \<Rightarrow> Inl e | Inr conn \<Rightarrow> Inr (NewClient nocall conn w))"

section \<open>Lemmas\<close>

lemmas gob_header_defs = gob_decode_struct_def request_fields_def response_fields_def string_field_def uint_field_def

lemma decode_gob_request:
  "gob_decode_struct request_fields put_RpcRequest (gob_RpcRequest r) zero_RpcRequest
     = (zero_RpcRequest\<lparr>req_ServiceMethod := req_ServiceMethod r, req_Seq := req_Seq r\<rparr>, None)"
  by (simp add: gob_RpcRequest_def gob_header_defs put_RpcRequest_def zero_RpcRequest_def)

lemma decode_gob_response:
  "gob_decode_struct response_fields put_RpcResponse (gob_RpcResponse r) zero_RpcResponse
     = (zero_RpcResponse\<lparr>resp_ServiceMethod := resp_ServiceMethod r, resp_Seq := resp_Seq r, resp_Error := resp_Error r\<rparr>, None)"
  by (simp add: gob_RpcResponse_def gob_header_defs put_RpcResponse_def zero_RpcResponse_def)

lemma gob_Decode_value: "gob_Decode dec (Inr v # s) x = (s, dec v x)"
  by (simp add: gob_Decode_def split: prod.split)

lemma gob_Decode_uses_input: "gob_Decode dec s x = (s', y, None) \<Longrightarrow> length s' < length s"
  by (cases s rule: gob_next.cases) (auto simp: gob_Decode_def split: prod.splits)

lemma gob_Decode_input: "gob_Decode dec s x = (s', y, e) \<Longrightarrow> length s' \<le> length s"
  by (cases s rule: gob_next.cases) (auto simp: gob_Decode_def split: prod.splits)

text \<open>A codec that can write: not closed, connection not broken, nothing in the unused buffer.\<close>

definition gc_healthy :: "gobClientCodec \<Rightarrow> bool" where
  "gc_healthy c \<longleftrightarrow> gc_closes c = 0 \<and> gc_encErr c = None \<and> gc_encBuf c = []"

definition gs_healthy :: "gobServerCodec \<Rightarrow> bool" where
  "gs_healthy gsc \<longleftrightarrow> gs_closes gsc = 0 \<and> gs_encErr gsc = None \<and> gs_encBuf gsc = [] \<and> \<not> gs_closed gsc"

lemma gc_WriteRequest_healthy:
  assumes "gc_healthy c"
  shows "gc_WriteRequest marshal c r arg =
    (case marshal arg of
       Inl e \<Rightarrow> (c\<lparr>gc_enc := gc_enc c @ [gob_RpcRequest r]\<rparr>, Some e)
     | Inr v \<Rightarrow> (c\<lparr>gc_enc := gc_enc c @ [gob_RpcRequest r, v]\<rparr>, None))"
  using assms by (auto simp: gc_WriteRequest_def gc_Encode_def gc_Flush_def gc_healthy_def split: sum.splits)

lemma gs_WriteResponse_healthy:
  assumes "gs_healthy gsc"
  shows "gs_WriteResponse marshal gsc r x =
    (case gob_reply marshal x of
       Inl e \<Rightarrow> (gsc\<lparr>gs_enc := gs_enc gsc @ [gob_RpcResponse r], gs_closed := True, gs_closes := 1\<rparr>, Some e)
     | Inr v \<Rightarrow> (gsc\<lparr>gs_enc := gs_enc gsc @ [gob_RpcResponse r, v]\<rparr>, None))"
  using assms
  by (auto simp: gs_WriteResponse_def gs_Encode_def gs_Flush_def gs_healthy_def gs_fail_def gs_Close_def split: sum.splits)

interpretation gob: client_codec "gob_ClientCodec marshal unmarshal" "\<lambda>c. length (gc_dec c)"
  for marshal unmarshal
proof
  fix c c' resp and x :: "'a option"
  assume "ReadResponseHeader (gob_ClientCodec marshal unmarshal) c zero_RpcResponse = (c', resp, None)"
  then show "length (gc_dec c') < length (gc_dec c)"
    by (auto simp: gob_ClientCodec_def gc_ReadResponseHeader_def Let_def dest: gob_Decode_uses_input split: prod.splits)
  show "\<exists>c2 y e. ReadResponseBody (gob_ClientCodec marshal unmarshal) c' x = Returns (c2, y, e)
      \<and> length (gc_dec c2) \<le> length (gc_dec c')"
    by (auto simp: gob_ClientCodec_def gc_ReadResponseBody_def Let_def dest: gob_Decode_input split: prod.splits)
qed

section \<open>Properties\<close>

text \<open>
  C8. A call through the gob codecs round-trips: the server reads the client's method name,
  sequence number and argument; the client reads the method name, number and error text the
  server set, and the reply. Fields that are zero are not sent, so that both headers are read
  into cleared ones. Each side has then read exactly its part of the stream.
\<close>

theorem gob_call_roundtrip:
  assumes "gc_healthy c" "gs_healthy gsc" "marshal arg = Inr ga" "gob_reply marshal reply = Inr gr"
    and "gc_WriteRequest marshal c r arg = (c1, e1)"
    and "gs_dec gsc = map Inr (drop (length (gc_enc c)) (gc_enc c1)) @ rest"
    and "gs_ReadRequestHeader gsc zero_RpcRequest = (gsc1, q, e2)"
    and "gs_ReadRequestBody unmarshal gsc1 (Some x) = (gsc2, a, e3)"
    and "gs_WriteResponse marshal gsc2 (zero_RpcResponse\<lparr>resp_ServiceMethod := req_ServiceMethod q,
           resp_Seq := req_Seq q, resp_Error := et\<rparr>) reply = (gsc3, e4)"
    and "gc_dec c1 = map Inr (drop (length (gs_enc gsc2)) (gs_enc gsc3)) @ rest'"
    and "gc_ReadResponseHeader c1 zero_RpcResponse = (c2, p, e5)"
    and "gc_ReadResponseBody unmarshal c2 (Some y) = (c3, b, e6)"
  shows "e1 = None \<and> e2 = None \<and> e4 = None \<and> e5 = None
    \<and> req_ServiceMethod q = req_ServiceMethod r \<and> req_Seq q = req_Seq r \<and> (a, e3) = map_prod Some id (unmarshal ga x)
    \<and> resp_ServiceMethod p = req_ServiceMethod r \<and> resp_Seq p = req_Seq r \<and> resp_Error p = et
    \<and> (b, e6) = map_prod Some id (unmarshal gr y) \<and> gs_dec gsc3 = rest \<and> gc_dec c3 = rest'"
proof -
  have c1: "e1 = None" "c1 = c\<lparr>gc_enc := gc_enc c @ [gob_RpcRequest r, ga]\<rparr>"
    using gc_WriteRequest_healthy [OF assms(1), of marshal r arg] assms(3,5) by auto
  have "gs_dec gsc = Inr (gob_RpcRequest r) # Inr ga # rest" using assms(6) c1(2) by simp
  then have q: "e2 = None" "q = zero_RpcRequest\<lparr>req_ServiceMethod := req_ServiceMethod r, req_Seq := req_Seq r\<rparr>"
      "gsc1 = gsc\<lparr>gs_dec := Inr ga # rest\<rparr>"
    using assms(7) by (simp_all add: gs_ReadRequestHeader_def gob_Decode_value decode_gob_request)
  have b1: "(a, e3) = map_prod Some id (unmarshal ga x)" "gsc2 = gsc\<lparr>gs_dec := rest\<rparr>"
    using assms(8) q(3) by (auto simp: gs_ReadRequestBody_def gob_Decode_value gob_body_def split: prod.splits)
  then have "gs_healthy gsc2" using assms(2) by (simp add: gs_healthy_def)
  let ?resp = "zero_RpcResponse\<lparr>resp_ServiceMethod := req_ServiceMethod q, resp_Seq := req_Seq q, resp_Error := et\<rparr>"
  have w: "e4 = None" "gsc3 = gsc2\<lparr>gs_enc := gs_enc gsc2 @ [gob_RpcResponse ?resp, gr]\<rparr>"
    using gs_WriteResponse_healthy [OF \<open>gs_healthy gsc2\<close>, of marshal ?resp reply] assms(4,9) by auto
  have "gc_dec c1 = Inr (gob_RpcResponse ?resp) # Inr gr # rest'" using assms(10) w(2) by simp
  then have p: "e5 = None" "resp_ServiceMethod p = req_ServiceMethod q" "resp_Seq p = req_Seq q" "resp_Error p = et"
      "gc_dec c2 = Inr gr # rest'"
    using assms(11) by (auto simp: gc_ReadResponseHeader_def gob_Decode_value decode_gob_response)
  have "(b, e6) = map_prod Some id (unmarshal gr y)" "gc_dec c3 = rest'"
    using assms(12) p(5) by (auto simp: gc_ReadResponseBody_def gob_Decode_value gob_body_def split: prod.splits)
  then show ?thesis using c1(1) q b1 w p by simp
qed

text \<open>Values for the examples: texts, of which the empty one cannot be encoded.\<close>

definition demo_marshal :: "string \<Rightarrow> go_error + gobval" where
  "demo_marshal s = (if s = [] then Inl (NewError ''gob: cannot encode'') else Inr (GString s))"

fun demo_unmarshal :: "gobval \<Rightarrow> string \<Rightarrow> string \<times> err" where
  "demo_unmarshal (GString s) old = (s, None)"
| "demo_unmarshal v old = (old, Some gob_mismatch)"

definition gob_demo_request :: RpcRequest where
  "gob_demo_request = zero_RpcRequest\<lparr>req_ServiceMethod := ''Echo.Ping'', req_Seq := 7\<rparr>"

definition gob_demo_response :: RpcResponse where
  "gob_demo_response = zero_RpcResponse\<lparr>resp_ServiceMethod := ''Echo.Ping'', resp_Seq := 7, resp_Error := []\<rparr>"

lemma new_codecs_healthy: "gc_healthy (NewGobClientCodec s)" "gs_healthy (NewGobServerCodec s)"
  by (simp_all add: gc_healthy_def gs_healthy_def NewGobClientCodec_def NewGobServerCodec_def)

theorem gob_call_roundtrip_witness:
  "\<exists>c1 c2 c3 p. gc_WriteRequest demo_marshal (NewGobClientCodec [Inr (gob_RpcResponse gob_demo_response), Inr (GString ''pong'')])
       gob_demo_request ''ping'' = (c1, None)
    \<and> gc_ReadResponseHeader c1 zero_RpcResponse = (c2, p, None) \<and> resp_Seq p = 7
    \<and> gc_ReadResponseBody demo_unmarshal c2 (Some []) = (c3, Some ''pong'', None) \<and> gc_dec c3 = []"
proof -
  let ?c = "NewGobClientCodec [Inr (gob_RpcResponse gob_demo_response), Inr (GString ''pong'')]"
  let ?s = "NewGobServerCodec [Inr (gob_RpcRequest gob_demo_request), Inr (GString ''ping'')]"
  obtain c1 e1 where 1: "gc_WriteRequest demo_marshal ?c gob_demo_request ''ping'' = (c1, e1)" by force
  obtain s1 q e2 where 2: "gs_ReadRequestHeader ?s zero_RpcRequest = (s1, q, e2)" by (metis prod_cases3)
  obtain s2 a e3 where 3: "gs_ReadRequestBody demo_unmarshal s1 (Some []) = (s2, a, e3)" by (metis prod_cases3)
  let ?resp = "zero_RpcResponse\<lparr>resp_ServiceMethod := req_ServiceMethod q, resp_Seq := req_Seq q, resp_Error := []\<rparr>"
  obtain s3 e4 where 4: "gs_WriteResponse demo_marshal s2 ?resp (Some ''pong'') = (s3, e4)" by force
  obtain c2 p e5 where 5: "gc_ReadResponseHeader c1 zero_RpcResponse = (c2, p, e5)" by (metis prod_cases3)
  obtain c3 b e6 where 6: "gc_ReadResponseBody demo_unmarshal c2 (Some []) = (c3, b, e6)" by (metis prod_cases3)
  have c1: "c1 = ?c\<lparr>gc_enc := [gob_RpcRequest gob_demo_request, GString ''ping'']\<rparr>"
    using 1 unfolding gc_WriteRequest_healthy [OF new_codecs_healthy(1)]
    by (simp add: demo_marshal_def NewGobClientCodec_def)
  have q: "q = gob_demo_request" "s1 = ?s\<lparr>gs_dec := [Inr (GString ''ping'')]\<rparr>"
    using 2 by (simp_all add: gs_ReadRequestHeader_def NewGobServerCodec_def gob_Decode_value decode_gob_request
        gob_demo_request_def)
  have s2: "s2 = ?s\<lparr>gs_dec := []\<rparr>"
    using 3 q(2) by (simp add: gs_ReadRequestBody_def gob_Decode_value gob_body_def NewGobServerCodec_def)
  then have "gs_healthy s2" by (simp add: gs_healthy_def NewGobServerCodec_def)
  then have s3: "gs_enc s3 = [gob_RpcResponse gob_demo_response, GString ''pong'']" "gs_enc s2 = []"
    using 4 s2 q(1) by (auto simp: gs_WriteResponse_healthy gob_reply_def demo_marshal_def NewGobServerCodec_def
        gob_demo_request_def gob_demo_response_def)
  have "e1 = None \<and> e2 = None \<and> e4 = None \<and> e5 = None
    \<and> req_ServiceMethod q = req_ServiceMethod gob_demo_request \<and> req_Seq q = req_Seq gob_demo_request
    \<and> (a, e3) = map_prod Some id (demo_unmarshal (GString ''ping'') [])
    \<and> resp_ServiceMethod p = req_ServiceMethod gob_demo_request \<and> resp_Seq p = req_Seq gob_demo_request \<and> resp_Error p = []
    \<and> (b, e6) = map_prod Some id (demo_unmarshal (GString ''pong'') []) \<and> gs_dec s3 = [] \<and> gc_dec c3 = []"
    by (rule gob_call_roundtrip [OF new_codecs_healthy _ _ 1 _ 2 3 4 _ 5 6])
      (simp_all add: demo_marshal_def gob_reply_def c1 s3 NewGobClientCodec_def NewGobServerCodec_def)
  then show ?thesis using 1 5 6 by (auto simp: gob_demo_request_def)
qed

text \<open>
  C13. On the gob codec, which \<^verbatim>\<open>NewClient\<close> uses, the receive loop ends for every finite input
  without a panic, whatever the peer sent; the client is then shut down and every call still
  pending has been completed with the error that ended the loop.
\<close>

theorem gob_receive_returns:
  assumes "plugins (cl_plugins cl) = Map.empty" "finite (dom (pending cl))"
    and "\<And>cl'. finite (dom (pending cl')) \<Longrightarrow> range_order (pending cl') (ks cl')"
  shows "\<exists>cl'. receive (gob_ClientCodec marshal unmarshal) ([], []) ks (Suc (length (gc_dec (codec cl)))) cl
      = Some (Returns cl') \<and> shutdown cl' \<and> ran (pending cl') \<subseteq> set (donelog cl')
    \<and> (\<exists>e. \<forall>c \<in> ran (pending cl'). call_Error (calls cl' c) = Some e)"
  by (rule gob.receive_returns [OF assms(1) _ assms(2,3)]) simp_all

theorem gob_receive_returns_witness:
  "\<exists>cl'. receive (gob_ClientCodec demo_marshal demo_unmarshal) ([], []) (\<lambda>cl. sorted_list_of_set (dom (pending cl))) 2
      ((NewClient \<lparr>call_ServiceMethod = [], call_Args = [], call_Reply = None, call_Error = None, call_Done = 0\<rparr>
         [Inr (gob_RpcResponse gob_demo_response)] ())\<lparr>pending := [3 \<mapsto> 4]\<rparr>) = Some (Returns cl') \<and> shutdown cl'"
  using gob_receive_returns [where ks = "\<lambda>cl. sorted_list_of_set (dom (pending cl))"
      and cl = "(NewClient \<lparr>call_ServiceMethod = [], call_Args = [], call_Reply = None, call_Error = None, call_Done = 0\<rparr>
         [Inr (gob_RpcResponse gob_demo_response)] ())\<lparr>pending := [3 \<mapsto> 4]\<rparr>"
      and marshal = demo_marshal and unmarshal = demo_unmarshal]
  by (auto simp: NewClient_def NewClientWithCodec_def newClientPluginManager_def NewGobClientCodec_def
      range_order_def numeral_2_eq_2)

text \<open>
  C39. An argument that cannot be encoded breaks the stream: \<^verbatim>\<open>WriteRequest\<close> reports the error,
  but its header is on the wire without a body. When the next request is written, the server
  reads the failed call's header, takes the next call's header for its body, and the next
  call's argument for a header.
\<close>

theorem gob_bad_argument_shifts_stream:
  assumes "gc_healthy c" "marshal bad = Inl e" "marshal arg = Inr ga"
    and "gs_dec gsc = map Inr (drop (length (gc_enc c)) (gc_enc c2)) @ rest"
    and "gc_WriteRequest marshal c r1 bad = (c1, e1)" "gc_WriteRequest marshal c1 r2 arg = (c2, e2)"
    and "gs_ReadRequestHeader gsc zero_RpcRequest = (gsc1, q1, e3)"
    and "gs_ReadRequestBody unmarshal gsc1 x = (gsc2, y, e4)"
    and "gs_ReadRequestHeader gsc2 zero_RpcRequest = (gsc3, q2, e5)"
  shows "e1 = Some e \<and> e2 = None \<and> e3 = None \<and> req_ServiceMethod q1 = req_ServiceMethod r1 \<and> req_Seq q1 = req_Seq r1
    \<and> (y, e4) = gob_body unmarshal (gob_RpcRequest r2) x
    \<and> (q2, e5) = gob_decode_struct request_fields put_RpcRequest ga zero_RpcRequest \<and> gs_dec gsc3 = rest"
proof -
  have c1: "e1 = Some e" "c1 = c\<lparr>gc_enc := gc_enc c @ [gob_RpcRequest r1]\<rparr>"
    using gc_WriteRequest_healthy [OF assms(1), of marshal r1 bad] assms(2,5) by auto
  then have "gc_healthy c1" using assms(1) by (simp add: gc_healthy_def)
  then have c2: "e2 = None" "gc_enc c2 = gc_enc c @ [gob_RpcRequest r1, gob_RpcRequest r2, ga]"
    using gc_WriteRequest_healthy [of c1 marshal r2 arg] assms(3,6) c1(2) by auto
  have "gs_dec gsc = Inr (gob_RpcRequest r1) # Inr (gob_RpcRequest r2) # Inr ga # rest"
    using assms(4) c2(2) by simp
  then have q1: "e3 = None" "req_ServiceMethod q1 = req_ServiceMethod r1" "req_Seq q1 = req_Seq r1"
      "gs_dec gsc1 = Inr (gob_RpcRequest r2) # Inr ga # rest"
    using assms(7) by (auto simp: gs_ReadRequestHeader_def gob_Decode_value decode_gob_request)
  then have y: "(y, e4) = gob_body unmarshal (gob_RpcRequest r2) x" "gs_dec gsc2 = Inr ga # rest"
    using assms(8) by (auto simp: gs_ReadRequestBody_def gob_Decode_value split: prod.splits)
  then have "(q2, e5) = gob_decode_struct request_fields put_RpcRequest ga zero_RpcRequest" "gs_dec gsc3 = rest"
    using assms(9) by (auto simp: gs_ReadRequestHeader_def gob_Decode_value split: prod.splits)
  then show ?thesis using c1(1) c2(1) q1 y by blast
qed

theorem gob_bad_argument_shifts_stream_witness:
  "\<exists>c1 c2 s1 s2 q y. gc_WriteRequest demo_marshal (NewGobClientCodec []) gob_demo_request []
       = (c1, Some (NewError ''gob: cannot encode''))
    \<and> gc_WriteRequest demo_marshal c1 (gob_demo_request\<lparr>req_Seq := 8\<rparr>) ''ping'' = (c2, None)
    \<and> gs_ReadRequestHeader (NewGobServerCodec (map Inr (gc_enc c2))) zero_RpcRequest = (s1, q, None) \<and> req_Seq q = 7
    \<and> gs_ReadRequestBody demo_unmarshal s1 (Some []) = (s2, y, Some gob_mismatch)"
proof -
  obtain c1 e1 where 1: "gc_WriteRequest demo_marshal (NewGobClientCodec []) gob_demo_request [] = (c1, e1)" by force
  obtain c2 e2 where 2: "gc_WriteRequest demo_marshal c1 (gob_demo_request\<lparr>req_Seq := 8\<rparr>) ''ping'' = (c2, e2)" by force
  obtain s1 q e3 where 3: "gs_ReadRequestHeader (NewGobServerCodec (map Inr (gc_enc c2))) zero_RpcRequest = (s1, q, e3)"
    by (metis prod_cases3)
  obtain s2 y e4 where 4: "gs_ReadRequestBody demo_unmarshal s1 (Some []) = (s2, y, e4)" by (metis prod_cases3)
  obtain s3 q2 e5 where 5: "gs_ReadRequestHeader s2 zero_RpcRequest = (s3, q2, e5)" by (metis prod_cases3)
  have "e1 = Some (NewError ''gob: cannot encode'') \<and> e2 = None \<and> e3 = None
    \<and> req_ServiceMethod q = req_ServiceMethod gob_demo_request \<and> req_Seq q = req_Seq gob_demo_request
    \<and> (y, e4) = gob_body demo_unmarshal (gob_RpcRequest (gob_demo_request\<lparr>req_Seq := 8\<rparr>)) (Some [])
    \<and> (q2, e5) = gob_decode_struct request_fields put_RpcRequest (GString ''ping'') zero_RpcRequest \<and> gs_dec s3 = []"
    by (rule gob_bad_argument_shifts_stream [OF new_codecs_healthy(1) _ _ _ 1 2 3 4 5])
      (simp_all add: demo_marshal_def NewGobClientCodec_def NewGobServerCodec_def)
  then show ?thesis using 1 2 3 4 by (auto simp: gob_demo_request_def gob_body_def gob_RpcRequest_def)
qed

text \<open>Calls of the server codec, and a connection that breaks between them.\<close>

datatype 'v gs_op = OpWriteResponse RpcResponse "'v option" | OpClose | OpBreak go_error

fun gs_run :: "('v \<Rightarrow> go_error + gobval) \<Rightarrow> 'v gs_op list \<Rightarrow> gobServerCodec \<Rightarrow> gobServerCodec" where
  "gs_run marshal [] gsc = gsc"
| "gs_run marshal (OpWriteResponse r x # os) gsc = gs_run marshal os (fst (gs_WriteResponse marshal gsc r x))"
| "gs_run marshal (OpClose # os) gsc = gs_run marshal os (fst (gs_Close gsc))"
| "gs_run marshal (OpBreak e # os) gsc = gs_run marshal os (gsc\<lparr>gs_encErr := Some e\<rparr>)"

definition gs_inv :: "gobServerCodec \<Rightarrow> bool" where
  "gs_inv gsc \<longleftrightarrow> gs_closes gsc = (if gs_closed gsc then 1 else 0) \<and> gs_encBuf gsc = []"

lemma gs_fail_inv:
  "gs_inv gsc \<Longrightarrow> gs_fail gsc e = (gsc\<lparr>gs_closed := True, gs_closes := 1\<rparr>, Some e)"
  by (simp add: gs_inv_def gs_fail_def gs_Flush_def gs_Close_def)

lemma gs_Encode_inv:
  assumes "gs_inv gsc" "gs_Encode gsc x = (g, e)"
  shows "gs_inv g" "gs_closed gsc \<Longrightarrow> g = gsc \<and> e \<noteq> None"
  using assms by (auto simp: gs_inv_def gs_Encode_def split: sum.splits option.splits if_splits)

lemma gs_WriteResponse_inv:
  assumes "gs_inv gsc" "gs_WriteResponse marshal gsc r x = (gsc1, e)"
  shows "gs_inv gsc1 \<and> (e \<noteq> None \<longrightarrow> gs_closed gsc1) \<and> (gs_closed gsc \<longrightarrow> e \<noteq> None \<and> gs_enc gsc1 = gs_enc gsc)"
proof -
  obtain g1 e1 where h: "gs_Encode gsc (Inr (gob_RpcResponse r)) = (g1, e1)" by force
  note g1 = gs_Encode_inv [OF assms(1) h]
  show ?thesis
  proof (cases e1)
    case None
    obtain g2 e2 where b: "gs_Encode g1 (gob_reply marshal x) = (g2, e2)" by force
    note g2 = gs_Encode_inv [OF g1(1) b]
    show ?thesis
    proof (cases e2)
      case None
      then show ?thesis using assms(2) h \<open>e1 = None\<close> b g1(2) g2(1)
        by (auto simp: gs_WriteResponse_def gs_inv_def gs_Flush_def)
    next
      case (Some y)
      then show ?thesis using assms(2) h \<open>e1 = None\<close> b g1(2) g2(1) gs_fail_inv [OF g2(1), of y]
        by (auto simp: gs_WriteResponse_def gs_inv_def)
    qed
  next
    case (Some y)
    then show ?thesis using assms(2) h g1 gs_fail_inv [OF g1(1), of y]
      by (auto simp: gs_WriteResponse_def gs_inv_def)
  qed
qed

lemma gs_run_inv: "gs_inv gsc \<Longrightarrow> gs_inv (gs_run marshal os gsc)"
proof (induction marshal os gsc rule: gs_run.induct)
  case (2 marshal r x os gsc)
  then show ?case using gs_WriteResponse_inv [OF 2(2) prod.collapse [symmetric], of marshal r x] by simp
next
  case (3 marshal os gsc)
  then show ?case by (simp add: gs_inv_def gs_Close_def)
qed (simp_all add: gs_inv_def)

text \<open>
  C29. The gob server codec closes its connection at most once, whatever sequence of responses,
  closes and broken writes it goes through; a response that could not be written leaves it
  closed, and once closed it reports every further response as failed and writes nothing.
\<close>

theorem gob_server_closes_once:
  assumes "gsc = gs_run marshal os (NewGobServerCodec conn)" "gs_WriteResponse marshal gsc r x = (gsc1, e)"
  shows "gs_closes gsc \<le> 1 \<and> gs_closes gsc1 \<le> 1 \<and> (e \<noteq> None \<longrightarrow> gs_closed gsc1 \<and> gs_closes gsc1 = 1)
    \<and> (gs_closed gsc \<longrightarrow> e \<noteq> None \<and> gs_enc gsc1 = gs_enc gsc)"
proof -
  have "gs_inv (NewGobServerCodec conn)" by (simp add: gs_inv_def NewGobServerCodec_def)
  then have i: "gs_inv gsc" unfolding assms(1) by (rule gs_run_inv)
  from gs_WriteResponse_inv [OF i assms(2)] i show ?thesis by (auto simp: gs_inv_def)
qed

theorem gob_server_closes_once_witness:
  "gs_closes (fst (gs_WriteResponse demo_marshal
      (gs_run demo_marshal [OpWriteResponse gob_demo_response (Some []), OpClose] (NewGobServerCodec [])) gob_demo_response None)) \<le> 1"
  using gob_server_closes_once [OF refl prod.collapse [symmetric],
      of demo_marshal "[OpWriteResponse gob_demo_response (Some []), OpClose]" "[]" gob_demo_response None] by blast

end
