(* ===== verification/Pools.thy ===== *)
theory Pools
  imports Messages
begin

text \<open>
  The free lists of \<^verbatim>\<open>src/server.go\<close>: \<^verbatim>\<open>getRequest\<close>, \<^verbatim>\<open>freeRequest\<close>, \<^verbatim>\<open>getResponse\<close> and
  \<^verbatim>\<open>freeResponse\<close>. The headers live in a heap of cells; the free ones are linked through
  their \<^verbatim>\<open>next\<close> fields. The locale states what the two pairs of operations do to the heap
  and derives, once for both, that a cell is never handed to two holders.
\<close>

section \<open>The two pools\<close>

text \<open>The cells at and above \<open>reqTop\<close> (\<open>respTop\<close>) are not allocated yet.\<close>

record reqPool =
  reqHeap :: "ptr \<Rightarrow> RpcRequest"
  freeReq :: "ptr option"
  reqTop :: ptr

record respPool =
  respHeap :: "ptr \<Rightarrow> RpcResponse"
  freeResp :: "ptr option"
  respTop :: ptr

definition newReqPool :: reqPool where
  "newReqPool = \<lparr>reqHeap = (\<lambda>_. zero_RpcRequest), freeReq = None, reqTop = 0\<rparr>"

definition newRespPool :: respPool where
  "newRespPool = \<lparr>respHeap = (\<lambda>_. zero_RpcResponse), freeResp = None, respTop = 0\<rparr>"

definition getRequest :: "reqPool \<Rightarrow> ptr \<times> reqPool" where
  "getRequest p =
     (case freeReq p of
        None \<Rightarrow>
          (reqTop p, p\<lparr>reqHeap := (reqHeap p)(reqTop p := zero_RpcRequest), reqTop := Suc (reqTop p)\<rparr>)
      | Some req \<Rightarrow>
          (req, p\<lparr>freeReq := req_next (reqHeap p req), reqHeap := (reqHeap p)(req := zero_RpcRequest)\<rparr>))"

definition freeRequest :: "reqPool \<Rightarrow> ptr \<Rightarrow> reqPool" where
  "freeRequest p req =
     p\<lparr>reqHeap := (reqHeap p)(req := (reqHeap p req)\<lparr>req_next := freeReq p\<rparr>), freeReq := Some req\<rparr>"

definition getResponse :: "respPool \<Rightarrow> ptr \<times> respPool" where
  "getResponse p =
     (case freeResp p of
        None \<Rightarrow>
          (respTop p, p\<lparr>respHeap := (respHeap p)(respTop p := zero_RpcResponse), respTop := Suc (respTop p)\<rparr>)
      | Some resp \<Rightarrow>
          (resp, p\<lparr>freeResp := resp_next (respHeap p resp), respHeap := (respHeap p)(resp := zero_RpcResponse)\<rparr>))"

definition freeResponse :: "respPool \<Rightarrow> ptr \<Rightarrow> respPool" where
  "freeResponse p resp =
     p\<lparr>respHeap := (respHeap p)(resp := (respHeap p resp)\<lparr>resp_next := freeResp p\<rparr>), freeResp := Some resp\<rparr>"

text \<open>A holder of a cell stores into it.\<close>

definition storeRequest :: "reqPool \<Rightarrow> ptr \<Rightarrow> RpcRequest \<Rightarrow> reqPool" where
  "storeRequest p req v = p\<lparr>reqHeap := (reqHeap p)(req := v)\<rparr>"

definition storeResponse :: "respPool \<Rightarrow> ptr \<Rightarrow> RpcResponse \<Rightarrow> respPool" where
  "storeResponse p resp v = p\<lparr>respHeap := (respHeap p)(resp := v)\<rparr>"

section \<open>The interface\<close>

text \<open>
  A use of a pool: take a cell, store into the \<open>i\<close>-th cell held, give the \<open>i\<close>-th cell held
  back. The holders can only name cells they hold, as the server does.
\<close>

datatype 'h pool_op = Get | Store nat 'h | Put nat

definition drop_nth :: "nat \<Rightarrow> 'a list \<Rightarrow> 'a list" where
  "drop_nth i xs = take i xs @ drop (Suc i) xs"

fun run_pool ::
  "('p \<Rightarrow> ptr \<times> 'p) \<Rightarrow> ('p \<Rightarrow> ptr \<Rightarrow> 'p) \<Rightarrow> ('p \<Rightarrow> ptr \<Rightarrow> 'h \<Rightarrow> 'p) \<Rightarrow> 'h pool_op list \<Rightarrow> 'p \<times> ptr list
     \<Rightarrow> 'p \<times> ptr list" where
  "run_pool get put store [] s = s"
| "run_pool get put store (Get # ops) (p, held) =
     (let (r, p') = get p in run_pool get put store ops (p', held @ [r]))"
| "run_pool get put store (Store i v # ops) (p, held) =
     run_pool get put store ops (if i < length held then store p (held ! i) v else p, held)"
| "run_pool get put store (Put i # ops) (p, held) =
     run_pool get put store ops
       (if i < length held then (put p (held ! i), drop_nth i held) else (p, held))"

text \<open>The cells linked from a head.\<close>

fun chain :: "(ptr \<Rightarrow> ptr option) \<Rightarrow> ptr option \<Rightarrow> ptr list \<Rightarrow> bool" where
  "chain nxt h [] \<longleftrightarrow> h = None"
| "chain nxt h (r # rs) \<longleftrightarrow> h = Some r \<and> chain nxt (nxt r) rs"

lemma chain_cong: "\<forall>r \<in> set rs. nxt r = nxt' r \<Longrightarrow> chain nxt h rs = chain nxt' h rs"
  by (induction rs arbitrary: h) auto

lemma chain_Some: "chain nxt (Some r) rs \<Longrightarrow> \<exists>rs'. rs = r # rs' \<and> chain nxt (nxt r) rs'"
  by (cases rs) auto

lemma chain_None: "chain nxt None rs \<Longrightarrow> rs = []"
  by (cases rs) auto

lemma set_drop_nth: "set (drop_nth i xs) \<subseteq> set xs"
  by (auto simp: drop_nth_def dest: in_set_takeD in_set_dropD)

lemma drop_nth_split:
  assumes "i < length xs"
  shows "distinct xs \<Longrightarrow> distinct (drop_nth i xs) \<and> xs ! i \<notin> set (drop_nth i xs)"
proof -
  assume "distinct xs"
  moreover have "xs = take i xs @ xs ! i # drop (Suc i) xs" using assms by (simp add: id_take_nth_drop)
  ultimately have "distinct (take i xs @ xs ! i # drop (Suc i) xs)" by simp
  then show ?thesis by (auto simp: drop_nth_def)
qed

locale free_list =
  fixes get :: "'p \<Rightarrow> ptr \<times> 'p"
    and put :: "'p \<Rightarrow> ptr \<Rightarrow> 'p"
    and store :: "'p \<Rightarrow> ptr \<Rightarrow> 'h \<Rightarrow> 'p"
    and cell :: "'p \<Rightarrow> ptr \<Rightarrow> 'h"
    and nextp :: "'h \<Rightarrow> ptr option"
    and head :: "'p \<Rightarrow> ptr option"
    and top :: "'p \<Rightarrow> ptr"
    and zero :: 'h
  assumes get_new: "head p = None \<Longrightarrow> get p = (r, p') \<Longrightarrow>
      r = top p \<and> cell p' = (cell p)(r := zero) \<and> head p' = None \<and> top p' = Suc (top p)"
    and get_free: "head p = Some q \<Longrightarrow> get p = (r, p') \<Longrightarrow>
      r = q \<and> cell p' = (cell p)(r := zero) \<and> head p' = nextp (cell p q) \<and> top p' = top p"
    and put_cell: "q \<noteq> r \<Longrightarrow> cell (put p r) q = cell p q"
    and put_next: "nextp (cell (put p r) r) = head p"
    and put_head: "head (put p r) = Some r"
    and put_top: "top (put p r) = top p"
    and store_cell: "cell (store p r v) = (cell p)(r := v)"
    and store_head: "head (store p r v) = head p"
    and store_top: "top (store p r v) = top p"
begin

text \<open>The free cells \<open>rs\<close> are linked from the head; they and the cells held are allocated, distinct and apart.\<close>

definition pool_inv :: "'p \<Rightarrow> ptr list \<Rightarrow> ptr list \<Rightarrow> bool" where
  "pool_inv p rs held \<longleftrightarrow> chain (\<lambda>r. nextp (cell p r)) (head p) rs \<and> distinct (rs @ held)
     \<and> set (rs @ held) \<subseteq> {..<top p}"

lemma chain_upd: "r \<notin> set rs \<Longrightarrow> chain (\<lambda>q. nextp (((cell p)(r := v)) q)) h rs = chain (\<lambda>q. nextp (cell p q)) h rs"
  by (intro chain_cong) auto

lemma get_inv:
  assumes inv: "pool_inv p rs held" and get: "get p = (r, p')"
  shows "r \<notin> set held \<and> cell p' = (cell p)(r := zero) \<and> (\<exists>rs'. pool_inv p' rs' (held @ [r]))"
proof (cases "head p")
  case None
  then have "rs = []" using inv chain_None by (auto simp: pool_inv_def)
  then show ?thesis using get_new [OF None get] inv
    by (auto simp: pool_inv_def less_Suc_eq intro!: exI [of _ "[]"])
next
  case (Some q)
  then obtain rs' where rs: "rs = q # rs'" "chain (\<lambda>r. nextp (cell p r)) (nextp (cell p q)) rs'"
    using inv chain_Some by (force simp: pool_inv_def)
  note g = get_free [OF Some get]
  have q: "q \<notin> set rs'" "q \<notin> set held" using inv rs by (auto simp: pool_inv_def)
  have "pool_inv p' rs' (held @ [r])"
    using inv rs g q chain_upd [OF q(1), of p zero] by (auto simp: pool_inv_def)
  then show ?thesis using g q by blast
qed

lemma put_inv:
  assumes inv: "pool_inv p rs held" and i: "i < length held"
  shows "pool_inv (put p (held ! i)) (held ! i # rs) (drop_nth i held)"
proof -
  let ?r = "held ! i"
  have r: "?r \<in> set held" using i by simp
  then have nr: "?r \<notin> set rs" using inv by (auto simp: pool_inv_def)
  have "chain (\<lambda>q. nextp (cell (put p ?r) q)) (head p) rs = chain (\<lambda>q. nextp (cell p q)) (head p) rs"
    using nr by (intro chain_cong) (metis put_cell)
  then have "chain (\<lambda>q. nextp (cell (put p ?r) q)) (head (put p ?r)) (?r # rs)"
    using inv by (simp add: put_head put_next pool_inv_def)
  then show ?thesis
    using inv drop_nth_split [OF i] set_drop_nth [of i held] r nr by (auto simp: pool_inv_def put_top)
qed

lemma store_inv: "pool_inv p rs held \<Longrightarrow> r \<in> set held \<Longrightarrow> pool_inv (store p r v) rs held"
proof -
  assume inv: "pool_inv p rs held" and r: "r \<in> set held"
  then have "r \<notin> set rs" by (auto simp: pool_inv_def)
  from chain_upd [OF this] show ?thesis
    using inv by (simp add: pool_inv_def store_cell store_head store_top)
qed

lemma run_inv:
  "pool_inv p rs held \<Longrightarrow> run_pool get put store ops (p, held) = (p', held') \<Longrightarrow> \<exists>rs'. pool_inv p' rs' held'"
proof (induction ops arbitrary: p rs held)
  case (Cons op ops)
  show ?case
  proof (cases op)
    case Get
    obtain r p1 where g: "get p = (r, p1)" by fastforce
    then obtain rs1 where "pool_inv p1 rs1 (held @ [r])" using get_inv [OF Cons.prems(1)] by blast
    from Cons.IH [OF this] Cons.prems(2) Get g show ?thesis by simp
  next
    case (Store i v)
    then show ?thesis
      using Cons.IH [OF store_inv [OF Cons.prems(1), of "held ! i" v]] Cons.IH [OF Cons.prems(1)] Cons.prems(2)
      by (cases "i < length held") simp_all
  next
    case (Put i)
    then show ?thesis
      using Cons.IH [OF put_inv [OF Cons.prems(1), of i]] Cons.IH [OF Cons.prems(1)] Cons.prems(2)
      by (cases "i < length held") simp_all
  qed
qed auto

text \<open>
  The pool as seen by its owners: \<open>own i\<close> is the cell owner \<open>i\<close> holds. Cells may also be held
  by nobody (a header that was taken and then dropped).
\<close>

definition pool_owned :: "'p \<Rightarrow> ('i \<rightharpoonup> ptr) \<Rightarrow> bool" where
  "pool_owned p own \<longleftrightarrow> (\<exists>rs held. pool_inv p rs held \<and> ran own \<subseteq> set held) \<and> inj_on own (dom own)"

lemma owned_apart: "pool_owned p own \<Longrightarrow> own i = Some q \<Longrightarrow> own i' = Some q \<Longrightarrow> i = i'"
  unfolding pool_owned_def by (metis domI inj_onD)

lemma owned_get:
  assumes own: "pool_owned p own" and get: "get p = (r, p')"
  shows "pool_owned (store p' r v) own \<and> (own i = None \<longrightarrow> pool_owned (store p' r v) (own(i \<mapsto> r)))
    \<and> r \<notin> ran own \<and> cell (store p' r v) = (cell p)(r := v) \<and> cell p' r = zero"
proof -
  obtain rs held where inv: "pool_inv p rs held" and held: "ran own \<subseteq> set held" and inj: "inj_on own (dom own)"
    using own by (auto simp: pool_owned_def)
  obtain rs' where g: "r \<notin> set held" "cell p' = (cell p)(r := zero)" "pool_inv p' rs' (held @ [r])"
    using get_inv [OF inv get] by blast
  have st: "pool_inv (store p' r v) rs' (held @ [r])" by (rule store_inv [OF g(3)]) simp
  have "r \<notin> ran own" using g held by blast
  moreover from this have "inj_on (own(i \<mapsto> r)) (dom (own(i \<mapsto> r)))"
    using inj by (auto simp: inj_on_def ran_def)
  moreover have "own i = None \<Longrightarrow> ran (own(i \<mapsto> r)) \<subseteq> set (held @ [r])" using held by auto
  moreover have "ran own \<subseteq> set (held @ [r])" using held by auto
  moreover have "cell (store p' r v) = (cell p)(r := v)" "cell p' r = zero" using g(2) by (simp_all add: store_cell)
  ultimately show ?thesis using st inj unfolding pool_owned_def by blast
qed

lemma owned_store:
  assumes own: "pool_owned p own" and i: "own i = Some r"
  shows "pool_owned (store p r v) own"
proof -
  have "r \<in> ran own" using i by (rule ranI)
  then show ?thesis using own store_inv unfolding pool_owned_def by blast
qed

lemma owned_put:
  assumes own: "pool_owned p own" and i: "own i = Some r"
  shows "pool_owned (put p r) (own(i := None))"
proof -
  obtain rs held where inv: "pool_inv p rs held" and held: "ran own \<subseteq> set held" and inj: "inj_on own (dom own)"
    using own by (auto simp: pool_owned_def)
  have "r \<in> set held" using held i by (auto intro: ranI)
  then obtain n where n: "n < length held" "held ! n = r" by (auto simp: in_set_conv_nth)
  have rest: "set held - {r} \<subseteq> set (drop_nth n held)"
  proof -
    have "held = take n held @ r # drop (Suc n) held" using n id_take_nth_drop by metis
    then have "set held = insert r (set (drop_nth n held))"
      unfolding drop_nth_def by (metis Un_insert_right list.simps(15) set_append)
    then show ?thesis by blast
  qed
  have "ran (own(i := None)) \<subseteq> set held - {r}"
  proof
    fix q assume "q \<in> ran (own(i := None))"
    then obtain k where k: "own k = Some q" "k \<noteq> i" by (auto simp: ran_def split: if_splits)
    then have "q \<noteq> r" using owned_apart [OF own _ i] by blast
    then show "q \<in> set held - {r}" using held k(1) by (auto intro: ranI)
  qed
  moreover have "inj_on (own(i := None)) (dom (own(i := None)))" using inj by (auto simp: inj_on_def)
  ultimately show ?thesis using put_inv [OF inv n(1)] n(2) rest unfolding pool_owned_def by blast
qed

lemma owned_new: "head p = None \<Longrightarrow> pool_owned p Map.empty"
  unfolding pool_owned_def pool_inv_def by (auto intro!: exI [of _ "[]"])

text \<open>
  After any use of an empty pool: the cells held are pairwise different, the next cell
  handed out is cleared and not among them, and neither taking nor giving back a cell
  touches another cell that is held.
\<close>

lemma exclusive:
  assumes "head p0 = None" "run_pool get put store ops (p0, []) = (p, held)" "get p = (r, p')"
  shows "distinct held \<and> r \<notin> set held \<and> cell p' r = zero
    \<and> (\<forall>q \<in> set held. cell p' q = cell p q)
    \<and> (\<forall>q \<in> set held. \<forall>q' \<in> set held. q \<noteq> q' \<longrightarrow> cell (put p q') q = cell p q)"
proof -
  have "pool_inv p0 [] []" using assms(1) by (simp add: pool_inv_def)
  then obtain rs where inv: "pool_inv p rs held" using run_inv assms(2) by blast
  then have "distinct held" by (simp add: pool_inv_def)
  then show ?thesis using get_inv [OF inv assms(3)] by (auto simp: put_cell)
qed

end

interpretation rq: free_list getRequest freeRequest storeRequest reqHeap req_next freeReq reqTop zero_RpcRequest
  by unfold_locales (auto simp: getRequest_def freeRequest_def storeRequest_def)

interpretation rp: free_list getResponse freeResponse storeResponse respHeap resp_next freeResp respTop zero_RpcResponse
  by unfold_locales (auto simp: getResponse_def freeResponse_def storeResponse_def)

section \<open>Properties\<close>

text \<open>
  C19. The request headers of concurrent requests never share memory: after any sequence of
  \<^verbatim>\<open>getRequest\<close>, \<^verbatim>\<open>freeRequest\<close> of a header held, and stores into headers held, the
  headers held are pairwise different; \<^verbatim>\<open>getRequest\<close> returns a cleared header none of the
  holders has and leaves theirs alone, and so does giving a header back.
\<close>

theorem request_pool_exclusive:
  assumes "run_pool getRequest freeRequest storeRequest ops (newReqPool, []) = (p, held)"
    and "getRequest p = (r, p')"
  shows "distinct held \<and> r \<notin> set held \<and> reqHeap p' r = zero_RpcRequest
    \<and> (\<forall>q \<in> set held. reqHeap p' q = reqHeap p q)
    \<and> (\<forall>q \<in> set held. \<forall>q' \<in> set held. q \<noteq> q' \<longrightarrow> reqHeap (freeRequest p q') q = reqHeap p q)"
  by (rule rq.exclusive [OF _ assms]) (simp add: newReqPool_def)

theorem request_pool_exclusive_witness:
  "\<exists>p p'. run_pool getRequest freeRequest storeRequest
       [Get, Get, Store 1 (zero_RpcRequest\<lparr>req_Seq := 5\<rparr>), Put 0] (newReqPool, []) = (p, [1])
     \<and> getRequest p = (0, p') \<and> reqHeap p' 0 = zero_RpcRequest \<and> req_Seq (reqHeap p' 1) = 5"
proof -
  let ?ops = "[Get, Get, Store 1 (zero_RpcRequest\<lparr>req_Seq := 5\<rparr>), Put 0]"
  obtain p held where run: "run_pool getRequest freeRequest storeRequest ?ops (newReqPool, []) = (p, held)"
    by fastforce
  obtain r p' where get: "getRequest p = (r, p')" by fastforce
  have "held = [1]" "r = 0" "req_Seq (reqHeap p 1) = 5"
    using run get by (auto simp: getRequest_def freeRequest_def storeRequest_def newReqPool_def drop_nth_def)
  then show ?thesis using request_pool_exclusive [OF run get] run get by auto
qed

text \<open>The same for the response headers, \<^verbatim>\<open>getResponse\<close> and \<^verbatim>\<open>freeResponse\<close>.\<close>

lemma response_pool_exclusive:
  assumes "run_pool getResponse freeResponse storeResponse ops (newRespPool, []) = (p, held)"
    and "getResponse p = (r, p')"
  shows "distinct held \<and> r \<notin> set held \<and> respHeap p' r = zero_RpcResponse
    \<and> (\<forall>q \<in> set held. respHeap p' q = respHeap p q)
    \<and> (\<forall>q \<in> set held. \<forall>q' \<in> set held. q \<noteq> q' \<longrightarrow> respHeap (freeResponse p q') q = respHeap p q)"
  by (rule rp.exclusive [OF _ assms]) (simp add: newRespPool_def)

theorem response_pool_exclusive_witness:
  "\<exists>p p'. run_pool getResponse freeResponse storeResponse
       [Get, Put 0, Get, Get] (newRespPool, []) = (p, [0, 1]) \<and> getResponse p = (2, p')
     \<and> respHeap p' 2 = zero_RpcResponse"
proof -
  obtain p held where run: "run_pool getResponse freeResponse storeResponse [Get, Put 0, Get, Get] (newRespPool, []) = (p, held)"
    by fastforce
  obtain r p' where get: "getResponse p = (r, p')" by fastforce
  have "held = [0, 1]" "r = 2"
    using run get
    by (auto simp: getResponse_def freeResponse_def newRespPool_def drop_nth_def zero_RpcResponse_def)
  then show ?thesis using response_pool_exclusive [OF run get] run get by auto
qed

end
