(* ===== verification/Config.thy ===== *)
theory Config
  imports GoStd
begin

text \<open>
  The configuration of \<^verbatim>\<open>src/config.go\<close>. A \<^verbatim>\<open>time.Duration\<close> is its number of nanoseconds.
\<close>

record ServerConfig =
  cfg_PSM :: string
  cfg_Port :: int
  cfg_CodecType :: string
  cfg_RequestTimeout :: int
  cfg_ConnectionTimeout :: int
  cfg_Retries :: int
  cfg_LoadBalance :: string
  cfg_MaxConcurrencyOnMethod :: int
  cfg_MaxConcurrencyOnService :: int

definition time_Second :: int where
  "time_Second = 1000000000"

definition DefaultConfig :: ServerConfig where
  "DefaultConfig =
     \<lparr>cfg_PSM = ''byterpc.default.basic'', cfg_Port = 8888, cfg_CodecType = ''gob'',
      cfg_RequestTimeout = time_Second * 30, cfg_ConnectionTimeout = 0, cfg_Retries = 3,
      cfg_LoadBalance = ''random'', cfg_MaxConcurrencyOnMethod = 10000,
      cfg_MaxConcurrencyOnService = 10000 * 10\<rparr>"

definition cfg_check :: "ServerConfig \<Rightarrow> err" where
  "cfg_check c = None"

record ClientConfig =
  ccfg_CodecType :: string

end
