(* ===== verification/RpcServer.thy ===== *)
theory RpcServer
  imports Plugins Pools Config
begin

text \<open>
  The server of \<^verbatim>\<open>src/server.go\<close> and the invocation of a method, \<^verbatim>\<open>Service.call\<close> of
  \<^verbatim>\<open>src/service.go\<close>. This theory has the operations, each cut at the points where it gives
  up a mutex or hands over to code that may run for long; theory \<open>ServerSystem\<close>
  interleaves them. The values of the RPC methods' types are of type \<open>'v\<close>, the plugins'
  world is of type \<open>'w\<close>, the state of a codec of type \<open>'c\<close>.
\<close>

section \<open>Data\<close>

text \<open>The interface \<^verbatim>\<open>ServerCodec\<close>; the body \<open>None\<close> is nil, or the empty struct \<^verbatim>\<open>invalidRequest\<close>.\<close>

record ('c, 'v) ServerCodec =
  ReadRequestHeader :: "'c \<Rightarrow> RpcRequest \<Rightarrow> 'c \<times> RpcRequest \<times> err"
  ReadRequestBody :: "'c \<Rightarrow> 'v option \<Rightarrow> 'c \<times> 'v option \<times> err"
  WriteResponse :: "'c \<Rightarrow> RpcResponse \<Rightarrow> 'v option \<Rightarrow> 'c \<times> err"
  CloseServerCodec :: "'c \<Rightarrow> 'c \<times> err"

text \<open>Package \<^verbatim>\<open>reflect\<close>: the value a new pointer points to, an empty map and an empty slice.\<close>

record 'v Reflect =
  reflect_New :: "rtype \<Rightarrow> 'v"
  reflect_MakeMap :: "rtype \<Rightarrow> 'v"
  reflect_MakeSlice :: "rtype \<Rightarrow> 'v"

text \<open>
  \<open>ln\<close> is the address of the listener, \<open>None\<close> when it is nil; \<open>activeConn\<close> the key set of
  the map, \<open>None\<close> when that is nil; \<open>reqs\<close> and \<open>resps\<close> are the headers with their free lists;
  \<open>stopListeners\<close> act on the world.
\<close>

record ('w, 'v) Server =
  serverConfig :: ServerConfig
  ln :: "string option"
  sv_plugins :: "('w, 'v) pluginManager"
  sv_world :: 'w
  activeConn :: "conn set option"
  serviceMap :: "string \<rightharpoonup> Service"
  reqs :: reqPool
  resps :: respPool
  serveWG :: nat
  stopListeners :: "('w \<Rightarrow> 'w) list"

section \<open>Construction\<close>

definition MainPort :: "ServerConfig \<Rightarrow> string" where
  "MainPort conf = strconv_Itoa (cfg_Port conf)"

definition server_PSM :: "('w, 'v) Server \<Rightarrow> string" where
  "server_PSM server = cfg_PSM (serverConfig server)"

text \<open>\<^verbatim>\<open>check\<close> and \<^verbatim>\<open>initListener\<close>; \<open>listen\<close> is \<^verbatim>\<open>net.Listen\<close> on tcp.\<close>

definition server_check :: "('w, 'v) Server \<Rightarrow> ('w, 'v) Server outcome" where
  "server_check server =
     (case cfg_check (serverConfig server) of
        Some e \<Rightarrow> Panics (''server config error:'' @ error_text e)
      | None \<Rightarrow> Returns server)"

definition initListener ::
  "(string \<Rightarrow> go_error + string) \<Rightarrow> ('w, 'v) Server \<Rightarrow> ('w, 'v) Server outcome" where
  "initListener listen server =
     (case listen ('':'' @ MainPort (serverConfig server)) of
        Inl e \<Rightarrow> Panics (''server: listening tcp port '' @ MainPort (serverConfig server) @ '' with error:'' @ error_text e)
      | Inr addr \<Rightarrow> Returns (server\<lparr>ln := Some addr\<rparr>))"

definition newRpcServerWithOptions ::
  "(string \<Rightarrow> go_error + string) \<Rightarrow> 'w \<Rightarrow> ServerConfig \<Rightarrow> ('w, 'v) Server outcome" where
  "newRpcServerWithOptions listen w conf =
     (case server_check \<lparr>serverConfig = conf, ln = None, sv_plugins = newServerPluginManager, sv_world = w,
             activeConn = None, serviceMap = Map.empty, reqs = newReqPool, resps = newRespPool,
             serveWG = 0, stopListeners = []\<rparr> of
        Returns server \<Rightarrow> initListener listen server
      | Panics m \<Rightarrow> Panics m
      | Blocks \<Rightarrow> Blocks)"

text \<open>
  \<^verbatim>\<open>NewServer\<close> and \<^verbatim>\<open>GetServer\<close> on the package's variables: a \<^verbatim>\<open>sync.Once\<close> counts as done
  even when its function panics.
\<close>

record ('w, 'v) globals =
  serverInstance :: "('w, 'v) Server option"
  serverOnce :: bool

definition NewServer ::
  "(string \<Rightarrow> go_error + string) \<Rightarrow> 'w \<Rightarrow> ('w, 'v) globals \<Rightarrow> ServerConfig
     \<Rightarrow> ('w, 'v) Server option outcome \<times> ('w, 'v) globals" where
  "NewServer listen w g conf =
     (if serverOnce g then (Returns (serverInstance g), g)
      else (case newRpcServerWithOptions listen w conf of
              Returns s \<Rightarrow> (Returns (Some s), g\<lparr>serverInstance := Some s, serverOnce := True\<rparr>)
            | Panics m \<Rightarrow> (Panics m, g\<lparr>serverOnce := True\<rparr>)
            | Blocks \<Rightarrow> (Blocks, g)))"

definition GetServer :: "('w, 'v) globals \<Rightarrow> ('w, 'v) Server option" where
  "GetServer g = serverInstance g"

section \<open>Registration\<close>

text \<open>\<^verbatim>\<open>endpointOf\<close>: it asks the listener for its address.\<close>

definition endpointOf :: "('w, 'v) Server \<Rightarrow> Service \<Rightarrow> Endpoint outcome" where
  "endpointOf server s =
     (case ln server of
        None \<Rightarrow> Panics ''invalid memory address or nil pointer dereference''
      | Some addr \<Rightarrow>
          Returns \<lparr>PSM = cfg_PSM (serverConfig server), Address = addr, ServiceName = svc_name s,
            Path = ''/'' @ cfg_PSM (serverConfig server) @ ''/'' @ svc_name s @ ''/'' @ addr, MetaData = None\<rparr>)"

text \<open>\<^verbatim>\<open>reflect.Indirect(s.receiver).Type().Name()\<close>: it panics on a nil pointer.\<close>

definition receiver_name :: "receiver \<Rightarrow> string outcome" where
  "receiver_name r =
     (case Elem (recv_type r) of
        None \<Rightarrow> Returns (Name (recv_type r))
      | Some t \<Rightarrow> if recv_nil r then Panics ''reflect: call of reflect.Value.Type on zero Value''
                  else Returns (Name t))"

text \<open>
  \<^verbatim>\<open>register\<close>. The service is stored under the name as given; the service's own name has
  its blanks trimmed. The plugins' error is dropped; \<open>ord\<close> is the order they run in.
\<close>

definition register ::
  "(nat \<Rightarrow> bool) \<Rightarrow> string list \<Rightarrow> ('w, 'v) Server \<Rightarrow> receiver \<Rightarrow> string \<Rightarrow> bool
     \<Rightarrow> (('w, 'v) Server \<times> err) outcome" where
  "register upper ord server r alias useAlias =
     (case receiver_name r of
        Panics m \<Rightarrow> Panics m | Blocks \<Rightarrow> Blocks
      | Returns tname \<Rightarrow>
          let sName = (if useAlias then alias else tname)
          in if sName = [] then Returns (server, Some ErrInvalidServiceName)
             else if \<not> isExported upper sName \<and> \<not> useAlias then Returns (server, Some ErrMethodMustBeExported)
             else (case registerMethods upper (recv_methods r) False of
                     Inl e \<Rightarrow> Returns (server, Some e)
                   | Inr ms \<Rightarrow>
                       let s = \<lparr>svc_name = strings_Trim CHR '' '' sName, svc_aliasName = [],
                                svc_receiver = r, svc_methods = ms\<rparr>
                       in (case serviceMap server sName of
                             Some _ \<Rightarrow> Returns (server, Some ErrServiceAlreadyDefinedInServer)
                           | None \<Rightarrow>
                               let server1 = server\<lparr>serviceMap := (serviceMap server)(sName \<mapsto> s)\<rparr>
                               in (case endpointOf server1 s of
                                     Panics m \<Rightarrow> Panics m | Blocks \<Rightarrow> Blocks
                                   | Returns rs \<Rightarrow>
                                       (case spm_RegisterService ord (sv_plugins server1) (sv_world server1) rs of
                                          Panics m \<Rightarrow> Panics m | Blocks \<Rightarrow> Blocks
                                        | Returns (w, _) \<Rightarrow> Returns (server1\<lparr>sv_world := w\<rparr>, None))))))"

definition RegisterService ::
  "(nat \<Rightarrow> bool) \<Rightarrow> string list \<Rightarrow> ('w, 'v) Server \<Rightarrow> receiver \<Rightarrow> (('w, 'v) Server \<times> err) outcome" where
  "RegisterService upper ord server r = register upper ord server r [] False"

definition RegisterServiceWithName ::
  "(nat \<Rightarrow> bool) \<Rightarrow> string list \<Rightarrow> ('w, 'v) Server \<Rightarrow> receiver \<Rightarrow> string
     \<Rightarrow> (('w, 'v) Server \<times> err) outcome" where
  "RegisterServiceWithName upper ord server r name =
     (if length name = 0 then Returns (server, Some ErrInvalidServiceName)
      else register upper ord server r name True)"

section \<open>Reading a request\<close>

text \<open>
  A method is named by the key of its service in the map and its own name: services are
  never replaced or removed, so the name stands for the pointer.
\<close>

type_synonym method_ref = "string \<times> string"

definition find_method :: "('w, 'v) Server \<Rightarrow> method_ref \<Rightarrow> Method option" where
  "find_method server ref =
     (case serviceMap server (fst ref) of None \<Rightarrow> None | Some s \<Rightarrow> svc_methods s (snd ref))"

text \<open>What \<^verbatim>\<open>readRequestHeader\<close> and \<^verbatim>\<open>readRequest\<close> return.\<close>

record header_result =
  hr_method :: "method_ref option"
  hr_req :: "ptr option"
  hr_keepReading :: bool
  hr_err :: err

record 'v request_result =
  rr_method :: "method_ref option"
  rr_req :: "ptr option"
  rr_argv :: "'v option"
  rr_replyVal :: "'v option"
  rr_keepReading :: bool
  rr_err :: err

text \<open>The look-up of \<^verbatim>\<open>readRequestHeader\<close>: the service and the method, or the error.\<close>

definition lookup_method :: "('w, 'v) Server \<Rightarrow> string \<Rightarrow> go_error + method_ref" where
  "lookup_method server serviceMethod =
     (let dot = strings_LastIndex CHR ''.'' serviceMethod
      in if dot < 0 then Inl (NewError (''service/method request invalid: '' @ serviceMethod))
         else let serviceName = take (nat dot) serviceMethod; methodName = drop (nat dot + 1) serviceMethod
              in case serviceMap server serviceName of
                   None \<Rightarrow> Inl (NewError (''can't find service '' @ serviceMethod))
                 | Some svc \<Rightarrow>
                     (case svc_methods svc methodName of
                        None \<Rightarrow> Inl (NewError (''can't find method '' @ serviceMethod))
                      | Some _ \<Rightarrow> Inr (serviceName, methodName)))"

definition readRequestHeader ::
  "('c, 'v) ServerCodec \<Rightarrow> string list \<Rightarrow> ('w, 'v) Server \<Rightarrow> 'c
     \<Rightarrow> (('w, 'v) Server \<times> 'c \<times> header_result) outcome" where
  "readRequestHeader cc ord server c =
     (let (req, pool) = getRequest (reqs server);
          (c', hdr, e) = ReadRequestHeader cc c (reqHeap pool req);
          server1 = server\<lparr>reqs := storeRequest pool req hdr\<rparr>
      in case e of
           Some er \<Rightarrow>
             Returns (server1, c', \<lparr>hr_method = None, hr_req = None, hr_keepReading = False,
               hr_err = Some (if er = EOF \<or> er = ErrUnexpectedEOF then er else ErrServerCanNotDecodeRequest)\<rparr>)
         | None \<Rightarrow>
             (case lookup_method server1 (req_ServiceMethod hdr) of
                Inl er \<Rightarrow>
                  Returns (server1, c', \<lparr>hr_method = None, hr_req = Some req, hr_keepReading = True, hr_err = Some er\<rparr>)
              | Inr ref \<Rightarrow>
                  (case spm_PreReadRequest ord (sv_plugins server1) (sv_world server1) hdr of
                     Panics m \<Rightarrow> Panics m | Blocks \<Rightarrow> Blocks
                   | Returns (w, hdr', e') \<Rightarrow>
                       Returns (server1\<lparr>reqs := storeRequest (reqs server1) req hdr', sv_world := w\<rparr>, c',
                         \<lparr>hr_method = Some ref, hr_req = Some req, hr_keepReading = True, hr_err = e'\<rparr>))))"

text \<open>The new reply value: an empty map or slice, or the zero value.\<close>

definition new_reply :: "'v Reflect \<Rightarrow> rtype \<Rightarrow> 'v" where
  "new_reply rf t =
     (case Kind t of Map \<Rightarrow> reflect_MakeMap rf t | Slice \<Rightarrow> reflect_MakeSlice rf t | _ \<Rightarrow> reflect_New rf t)"

definition new_arg :: "'v Reflect \<Rightarrow> rtype \<Rightarrow> 'v" where
  "new_arg rf t = (case Elem t of Some u \<Rightarrow> reflect_New rf u | None \<Rightarrow> reflect_New rf t)"

definition readRequest ::
  "('c, 'v) ServerCodec \<Rightarrow> 'v Reflect \<Rightarrow> string list \<times> string list \<Rightarrow> ('w, 'v) Server \<Rightarrow> 'c
     \<Rightarrow> (('w, 'v) Server \<times> 'c \<times> 'v request_result) outcome" where
  "readRequest cc rf ord server c =
     (case readRequestHeader cc (fst ord) server c of
        Panics m \<Rightarrow> Panics m | Blocks \<Rightarrow> Blocks
      | Returns (server1, c1, h) \<Rightarrow>
          let res = \<lparr>rr_method = hr_method h, rr_req = hr_req h, rr_argv = None, rr_replyVal = None,
                     rr_keepReading = hr_keepReading h, rr_err = hr_err h\<rparr>
          in if hr_err h \<noteq> None
             then (if \<not> hr_keepReading h then Returns (server1, c1, res)
                   else Returns (server1, fst (ReadRequestBody cc c1 None), res))
             else (case Option.bind (hr_method h) (find_method server1) of
                     None \<Rightarrow> Panics ''invalid memory address or nil pointer dereference''
                   | Some m \<Rightarrow>
                       let argv = new_arg rf (ArgType m);
                           (c2, y, e) = ReadRequestBody cc c1 (Some argv);
                           argv' = (case y of Some v \<Rightarrow> v | None \<Rightarrow> argv)
                       in if e \<noteq> None then Returns (server1, c2, res\<lparr>rr_argv := Some argv', rr_err := e\<rparr>)
                          else (case Elem (ReplyType m) of
                                  None \<Rightarrow> Panics ''reflect: Elem of invalid type''
                                | Some t \<Rightarrow>
                                    (case hr_req h of
                                       None \<Rightarrow> Panics ''invalid memory address or nil pointer dereference''
                                     | Some req \<Rightarrow>
                                         (case spm_PostReadRequest (snd ord) (sv_plugins server1) (sv_world server1)
                                                 (reqHeap (reqs server1) req, argv') of
                                            Panics p \<Rightarrow> Panics p | Blocks \<Rightarrow> Blocks
                                          | Returns (w, (hdr, argv''), e') \<Rightarrow>
                                              Returns (server1\<lparr>reqs := storeRequest (reqs server1) req hdr, sv_world := w\<rparr>, c2,
                                                res\<lparr>rr_argv := Some argv'', rr_replyVal := Some (new_reply rf t),
                                                    rr_err := e'\<rparr>))))))"

section \<open>Sending a response\<close>

text \<open>
  \<^verbatim>\<open>sendResponse\<close> in three sections: the header is taken from the pool and filled in; with
  \<^verbatim>\<open>sending\<close> held the hooks run and the codec writes, whose error is dropped; the header is
  given back.
\<close>

definition sendResponse_header ::
  "('w, 'v) Server \<Rightarrow> ptr \<Rightarrow> 'v option \<Rightarrow> string \<Rightarrow> ptr \<times> 'v option \<times> ('w, 'v) Server" where
  "sendResponse_header server req reply errMsg =
     (let (resp, pool) = getResponse (resps server);
          rq = reqHeap (reqs server) req;
          h0 = (respHeap pool resp)\<lparr>resp_ServiceMethod := req_ServiceMethod rq\<rparr>;
          h1 = (if errMsg \<noteq> [] then h0\<lparr>resp_Error := errMsg\<rparr> else h0);
          h2 = h1\<lparr>resp_Seq := req_Seq rq\<rparr>
      in (resp, if errMsg \<noteq> [] then None else reply, server\<lparr>resps := storeResponse pool resp h2\<rparr>))"

definition sendResponse_write ::
  "('c, 'v) ServerCodec \<Rightarrow> string list \<times> string list \<Rightarrow> ('w, 'v) Server \<Rightarrow> 'c \<Rightarrow> ptr \<Rightarrow> 'v option
     \<Rightarrow> (('w, 'v) Server \<times> 'c) outcome" where
  "sendResponse_write cc ord server c resp reply =
     (case spm_PreWriteResponse (fst ord) (sv_plugins server) (sv_world server) (respHeap (resps server) resp, reply) of
        Panics m \<Rightarrow> Panics m | Blocks \<Rightarrow> Blocks
      | Returns (w, (h, reply'), _) \<Rightarrow>
          let c' = fst (WriteResponse cc c h reply')
          in (case spm_PostWriteResponse (snd ord) (sv_plugins server) w (h, reply') of
                Panics m \<Rightarrow> Panics m | Blocks \<Rightarrow> Blocks
              | Returns (w', (h', _), _) \<Rightarrow>
                  Returns (server\<lparr>resps := storeResponse (resps server) resp h', sv_world := w'\<rparr>, c')))"

definition sendResponse_free :: "('w, 'v) Server \<Rightarrow> ptr \<Rightarrow> ('w, 'v) Server" where
  "sendResponse_free server resp = server\<lparr>resps := freeResponse (resps server) resp\<rparr>"

definition sendResponse ::
  "('c, 'v) ServerCodec \<Rightarrow> string list \<times> string list \<Rightarrow> ('w, 'v) Server \<Rightarrow> 'c \<Rightarrow> ptr \<Rightarrow> 'v option \<Rightarrow> string
     \<Rightarrow> (('w, 'v) Server \<times> 'c) outcome" where
  "sendResponse cc ord server c req reply errMsg =
     (case sendResponse_header server req reply errMsg of
        (resp, reply', server1) \<Rightarrow>
          (case sendResponse_write cc ord server1 c resp reply' of
             Panics m \<Rightarrow> Panics m | Blocks \<Rightarrow> Blocks
           | Returns (server2, c') \<Rightarrow> Returns (sendResponse_free server2 resp, c')))"

definition server_freeRequest :: "('w, 'v) Server \<Rightarrow> ptr \<Rightarrow> ('w, 'v) Server" where
  "server_freeRequest server req = server\<lparr>reqs := freeRequest (reqs server) req\<rparr>"

section \<open>Calling a method\<close>

text \<open>
  \<^verbatim>\<open>Service.call\<close>: the counter, the method's function and the response. \<open>invoke\<close> is the
  function: it is given the receiver, the argument and the reply, and returns the reply it
  leaves and the text of its error, if any.
\<close>

type_synonym 'v invocation = "rmethod \<Rightarrow> receiver \<Rightarrow> 'v \<Rightarrow> 'v \<Rightarrow> ('v \<times> string option) outcome"

definition count_call :: "('w, 'v) Server \<Rightarrow> method_ref \<Rightarrow> ('w, 'v) Server" where
  "count_call server ref =
     (case serviceMap server (fst ref) of
        None \<Rightarrow> server
      | Some s \<Rightarrow>
          (case svc_methods s (snd ref) of
             None \<Rightarrow> server
           | Some m \<Rightarrow> server\<lparr>serviceMap := (serviceMap server)(fst ref \<mapsto>
                 s\<lparr>svc_methods := (svc_methods s)(snd ref \<mapsto> m\<lparr>numCalls := numCalls m + 1\<rparr>)\<rparr>)\<rparr>))"

definition invoke_method ::
  "'v invocation \<Rightarrow> ('w, 'v) Server \<Rightarrow> method_ref \<Rightarrow> 'v \<Rightarrow> 'v \<Rightarrow> ('v \<times> string) outcome" where
  "invoke_method invoke server ref argv replyVal =
     (case (serviceMap server (fst ref), find_method server ref) of
        (Some s, Some m) \<Rightarrow>
          (case invoke (method_of m) (svc_receiver s) argv replyVal of
             Returns (reply, e) \<Rightarrow> Returns (reply, case e of None \<Rightarrow> [] | Some msg \<Rightarrow> msg)
           | Panics p \<Rightarrow> Panics p
           | Blocks \<Rightarrow> Blocks)
      | _ \<Rightarrow> Panics ''invalid memory address or nil pointer dereference'')"

definition Service_call ::
  "('c, 'v) ServerCodec \<Rightarrow> 'v invocation \<Rightarrow> string list \<times> string list \<Rightarrow> ('w, 'v) Server \<Rightarrow> 'c \<Rightarrow> method_ref
     \<Rightarrow> ptr \<Rightarrow> 'v \<Rightarrow> 'v \<Rightarrow> (('w, 'v) Server \<times> 'c) outcome" where
  "Service_call cc invoke ord server c ref req argv replyVal =
     (let server1 = count_call server ref
      in case invoke_method invoke server1 ref argv replyVal of
           Panics m \<Rightarrow> Panics m | Blocks \<Rightarrow> Blocks
         | Returns (reply, errMsg) \<Rightarrow>
             (case sendResponse cc ord server1 c req (Some reply) errMsg of
                Panics m \<Rightarrow> Panics m | Blocks \<Rightarrow> Blocks
              | Returns (server2, c') \<Rightarrow> Returns (server_freeRequest server2 req, c')))"

section \<open>Connections\<close>

definition server_Start :: "('w, 'v) Server \<Rightarrow> ('w, 'v) Server outcome" where
  "server_Start server =
     (if ln server = None then Panics ''server's net listener can't be nil''
      else Returns (case activeConn server of
                      None \<Rightarrow> server\<lparr>activeConn := Some {}\<rparr>
                    | Some _ \<Rightarrow> server))"

definition onStop :: "('w, 'v) Server \<Rightarrow> ('w, 'v) Server outcome" where
  "onStop server =
     (if serveWG server \<noteq> 0 then Blocks
      else Returns (server\<lparr>sv_world := fold (\<lambda>l w. l w) (stopListeners server) (sv_world server)\<rparr>))"

text \<open>
  One iteration of \<^verbatim>\<open>acceptLoop\<close>: \<open>stop\<close> says that a value was waiting on the stop channel
  and \<open>accepted\<close> what \<^verbatim>\<open>Accept\<close> returned. The result is the connection handed to a new
  goroutine, if any. The loop never ends.
\<close>

definition accept_iter ::
  "string list \<Rightarrow> ('w, 'v) Server \<Rightarrow> bool \<Rightarrow> go_error + conn \<Rightarrow> (('w, 'v) Server \<times> conn option) outcome" where
  "accept_iter ord server stop accepted =
     (case (if stop then onStop server else Returns server) of
        Panics m \<Rightarrow> Panics m | Blocks \<Rightarrow> Blocks
      | Returns server1 \<Rightarrow>
          (case accepted of
             Inl e \<Rightarrow> Returns (server1, None)
           | Inr conn0 \<Rightarrow>
               (case spm_HandleConnAccept ord (sv_plugins server1) (sv_world server1) conn0 of
                  Panics m \<Rightarrow> Panics m | Blocks \<Rightarrow> Blocks
                | Returns (w, conn, er) \<Rightarrow>
                    let server2 = server1\<lparr>sv_world := w\<rparr>
                    in if er \<noteq> None then Returns (server2, None)
                       else (case activeConn server2 of
                               None \<Rightarrow> Panics ''assignment to entry in nil map''
                             | Some cs \<Rightarrow>
                                 Returns (server2\<lparr>activeConn := Some (insert conn cs), serveWG := Suc (serveWG server2)\<rparr>,
                                          Some conn)))))"

text \<open>The codec \<^verbatim>\<open>handleConn\<close> makes; any other codec type is served by none.\<close>

datatype codec_kind = JsonCodecKind | GobCodecKind

definition codec_of_type :: "string \<Rightarrow> codec_kind option" where
  "codec_of_type t = (if t = ''json'' then Some JsonCodecKind else if t = ''gob'' then Some GobCodecKind else None)"

text \<open>The end of \<^verbatim>\<open>handleConn\<close> and of its goroutine, after \<^verbatim>\<open>serveCodec\<close> has returned.\<close>

definition handleConn_end ::
  "string list \<Rightarrow> ('w, 'v) Server \<Rightarrow> conn \<Rightarrow> ('w, 'v) Server outcome" where
  "handleConn_end ord server conn =
     (let server1 = server\<lparr>activeConn := map_option (\<lambda>cs. cs - {conn}) (activeConn server)\<rparr>
      in case spm_HandleConnClose ord (sv_plugins server1) (sv_world server1) conn of
           Panics m \<Rightarrow> Panics m | Blocks \<Rightarrow> Blocks
         | Returns (w, _, _) \<Rightarrow> Returns (server1\<lparr>sv_world := w, serveWG := serveWG server1 - 1\<rparr>))"

section \<open>Lemmas\<close>

lemma LastIndex_split:
  assumes "c \<in> set s"
  shows "\<exists>a b. s = a @ c # b \<and> c \<notin> set b \<and> strings_LastIndex c s = int (length a)"
proof -
  obtain a b where s: "s = a @ c # b" "c \<notin> set b" using assms by (auto dest: split_list_last)
  then show ?thesis using strings_LastIndex_append [of c b a] by auto
qed

lemma lookup_method_dotted:
  "CHR ''.'' \<notin> set m \<Longrightarrow>
   lookup_method server (n @ CHR ''.'' # m) =
     (case serviceMap server n of
        None \<Rightarrow> Inl (NewError (''can't find service '' @ n @ CHR ''.'' # m))
      | Some svc \<Rightarrow>
          (case svc_methods svc m of
             None \<Rightarrow> Inl (NewError (''can't find method '' @ n @ CHR ''.'' # m))
           | Some _ \<Rightarrow> Inr (n, m)))"
  using strings_LastIndex_append [of "CHR ''.''" m n] by (simp add: lookup_method_def Let_def)

lemma lookup_method_undotted:
  "CHR ''.'' \<notin> set sm \<Longrightarrow>
   lookup_method server sm = Inl (NewError (''service/method request invalid: '' @ sm))"
  by (simp add: lookup_method_def strings_LastIndex_none)

text \<open>What a successful registration has done.\<close>

lemma register_ok:
  assumes "register upper ord server r alias useAlias = Returns (server', None)"
    and "receiver_name r = Returns tname" "n = (if useAlias then alias else tname)"
  shows "n \<noteq> [] \<and> serviceMap server n = None
    \<and> registerMethods upper (recv_methods r) False = Inr (published upper (recv_methods r))
    \<and> (\<forall>m \<in> set (recv_methods r). exported_method m \<longrightarrow> suitable upper m)
    \<and> serviceMap server' = (serviceMap server)(n \<mapsto>
         \<lparr>svc_name = strings_Trim CHR '' '' n, svc_aliasName = [], svc_receiver = r,
          svc_methods = published upper (recv_methods r)\<rparr>)"
proof -
  obtain ms where ms: "registerMethods upper (recv_methods r) False = Inr ms"
    using assms(1) by (auto simp: register_def Let_def split: outcome.splits if_splits sum.splits)
  have all: "\<forall>m \<in> set (recv_methods r). exported_method m \<longrightarrow> suitable upper m" and pub: "ms = published upper (recv_methods r)"
    using registerMethods_loop_strict [of "recv_methods r" upper Map.empty] ms
    by (auto simp: registerMethods_def split: if_splits)
  then show ?thesis using assms ms
    by (auto simp: register_def Let_def split: outcome.splits if_splits option.splits)
qed

lemma published_Some:
  "m \<in> set ms \<Longrightarrow> exported_method m \<Longrightarrow> suitable upper m \<Longrightarrow> published upper ms (rm_Name m) \<noteq> None"
  unfolding published_def map_of_eq_None_iff by force

section \<open>Properties\<close>

text \<open>
  C21. The dispatch of a request by its name: \<^verbatim>\<open>readRequestHeader\<close> finds a method exactly when
  the name is that of a registered service, a dot and a name without a dot of a method of
  that service; in all other cases it reports an error.
\<close>

theorem lookup_method_iff:
  "(lookup_method server sm = Inr (n, m)) =
     (sm = n @ CHR ''.'' # m \<and> CHR ''.'' \<notin> set m \<and> find_method server (n, m) \<noteq> None)"
proof
  assume found: "lookup_method server sm = Inr (n, m)"
  then have "CHR ''.'' \<in> set sm" using lookup_method_undotted [of sm server] by (cases "CHR ''.'' \<in> set sm") auto
  then obtain a b where "sm = a @ CHR ''.'' # b" "CHR ''.'' \<notin> set b" using LastIndex_split by blast
  with found show "sm = n @ CHR ''.'' # m \<and> CHR ''.'' \<notin> set m \<and> find_method server (n, m) \<noteq> None"
    by (auto simp: lookup_method_dotted find_method_def split: option.splits)
qed (auto simp: lookup_method_dotted find_method_def split: option.splits)

text \<open>
  C20. A service registered under a name is reachable: every exported method of the receiver
  is found by the request \<^verbatim>\<open>name.Method\<close> and is the published entry of that method; every
  other service is found as before.
\<close>

theorem registered_service_reachable:
  assumes "RegisterServiceWithName upper ord server r n = Returns (server', None)"
    and "receiver_name r = Returns tname"
    and "m \<in> set (recv_methods r)" "exported_method m" "CHR ''.'' \<notin> set (rm_Name m)"
  shows "lookup_method server' (n @ CHR ''.'' # rm_Name m) = Inr (n, rm_Name m)
    \<and> find_method server' (n, rm_Name m) = published upper (recv_methods r) (rm_Name m)
    \<and> (\<forall>n' m'. n' \<noteq> n \<longrightarrow> find_method server' (n', m') = find_method server (n', m'))"
proof -
  have "register upper ord server r n True = Returns (server', None)"
    using assms(1) by (simp add: RegisterServiceWithName_def split: if_splits)
  note r = register_ok [OF this assms(2) refl]
  then have "published upper (recv_methods r) (rm_Name m) \<noteq> None"
    using assms(3,4) by (intro published_Some) auto
  then show ?thesis using r assms(5)
    by (auto simp: lookup_method_dotted find_method_def split: option.splits)
qed

definition demo_receiver :: receiver where
  "demo_receiver = \<lparr>recv_type = RType ''Arith'' ''main'' Struct, recv_nil = False, recv_methods = [demo_method]\<rparr>"

definition demo_sv :: "(unit, nat) Server" where
  "demo_sv = \<lparr>serverConfig = DefaultConfig, ln = Some ''1.2.3.4:8888'', sv_plugins = newServerPluginManager,
     sv_world = (), activeConn = Some {}, serviceMap = Map.empty, reqs = newReqPool, resps = newRespPool,
     serveWG = 0, stopListeners = []\<rparr>"

lemma demo_published: "registerMethods ascii_upper (recv_methods demo_receiver) False = Inr [''Add'' \<mapsto> method_entry demo_method]"
  using registerMethods_loop_strict [of "[demo_method]" ascii_upper Map.empty]
  by (simp add: demo_receiver_def registerMethods_def demo_suitable published_def) (simp add: demo_method_def)

lemma demo_receiver_name: "receiver_name demo_receiver = Returns ''Arith''"
  by (simp add: demo_receiver_def receiver_name_def)

lemma demo_registered:
  "\<exists>server'. RegisterServiceWithName ascii_upper [] demo_sv demo_receiver ''calc'' = Returns (server', None)"
  by (simp add: RegisterServiceWithName_def register_def demo_published demo_receiver_name)
    (simp add: endpointOf_def demo_sv_def spm_RegisterService_def newServerPluginManager_def Let_def)

theorem registered_service_reachable_witness:
  "\<exists>server'. RegisterServiceWithName ascii_upper [] demo_sv demo_receiver ''calc'' = Returns (server', None)
     \<and> lookup_method server' ''calc.Add'' = Inr (''calc'', ''Add'')"
proof -
  obtain server' where r: "RegisterServiceWithName ascii_upper [] demo_sv demo_receiver ''calc'' = Returns (server', None)"
    using demo_registered by blast
  from registered_service_reachable [OF r demo_receiver_name, of demo_method] r show ?thesis
    by (simp add: demo_receiver_def demo_suitable) (simp add: demo_method_def)
qed

text \<open>
  A name is registered once: any later registration under it fails, with an error the
  code has for it or for the receiver, and changes nothing.
\<close>

lemma register_name_once:
  assumes "n \<noteq> []" "serviceMap server n \<noteq> None" "receiver_name r = Returns tname"
  shows "\<exists>e. RegisterServiceWithName upper ord server r n = Returns (server, Some e)
    \<and> (e = ErrServiceAlreadyDefinedInServer \<or> registerMethods upper (recv_methods r) False = Inl e)"
  using assms by (auto simp: RegisterServiceWithName_def register_def Let_def split: sum.split)

lemma register_name_once_witness:
  "\<exists>server' e. RegisterServiceWithName ascii_upper [] demo_sv demo_receiver ''calc'' = Returns (server', None)
     \<and> RegisterServiceWithName ascii_upper [] server' demo_receiver ''calc'' = Returns (server', Some e)"
proof -
  obtain server' where r: "RegisterServiceWithName ascii_upper [] demo_sv demo_receiver ''calc'' = Returns (server', None)"
    using demo_registered by blast
  have "register ascii_upper [] demo_sv demo_receiver ''calc'' True = Returns (server', None)"
    using r by (simp add: RegisterServiceWithName_def)
  from register_ok [OF this demo_receiver_name refl] have "serviceMap server' ''calc'' \<noteq> None" by simp
  from register_name_once [OF _ this demo_receiver_name] r show ?thesis by blast
qed

text \<open>
  The endpoint a server registers lies under the path the client derives from the invoke
  point \<^verbatim>\<open>PSM:Service.Method\<close>: the endpoint's path is that path and the listener's address.
\<close>

lemma invoke_point_finds_endpoint:
  assumes "ln server = Some addr" "CHR '':'' \<notin> set (server_PSM server)"
    and "CHR '':'' \<notin> set (svc_name s)" "CHR ''.'' \<notin> set (svc_name s)" "CHR '':'' \<notin> set m"
  shows "\<exists>p ep. TransformInvokePointToPath (server_PSM server @ '':'' @ svc_name s @ ''.'' @ m) = Inr p
    \<and> endpointOf server s = Returns ep \<and> Path ep = p @ ''/'' @ Address ep"
  using assms
  by (simp add: TransformInvokePointToPath_def strings_Split_append strings_Split_no_sep endpointOf_def
      server_PSM_def Let_def)

theorem invoke_point_finds_endpoint_witness:
  "\<exists>p ep. TransformInvokePointToPath ''byterpc.default.basic:calc.Add'' = Inr p
    \<and> endpointOf demo_sv \<lparr>svc_name = ''calc'', svc_aliasName = [], svc_receiver = demo_receiver, svc_methods = Map.empty\<rparr>
        = Returns ep \<and> Path ep = p @ ''/1.2.3.4:8888''"
proof -
  let ?s = "\<lparr>svc_name = ''calc'', svc_aliasName = [], svc_receiver = demo_receiver, svc_methods = Map.empty\<rparr>"
  have ep: "endpointOf demo_sv ?s = Returns ep \<Longrightarrow> Address ep = ''1.2.3.4:8888''" for ep
    by (auto simp: endpointOf_def demo_sv_def)
  show ?thesis
    using invoke_point_finds_endpoint [of demo_sv "''1.2.3.4:8888''" ?s "''Add''"] ep
    by (auto simp: demo_sv_def server_PSM_def DefaultConfig_def)
qed

end
