(* ===== verification/RpcCall.thy ===== *)
theory RpcCall
  imports ClientJson GobCodec RpcServer
begin

text \<open>
  A whole call: the client of \<^verbatim>\<open>src/client.go\<close>, a pair of codecs and the server of
  \<^verbatim>\<open>src/server.go\<close>. The codecs enter as the locale \<open>codec_pair\<close>, which says what each side
  writes and what the other reads from it; the call is proved once there and holds for the
  JSON codecs and for the gob codecs.
\<close>

section \<open>The server codecs as values of the interface\<close>

definition json_ServerCodec ::
  "('v \<Rightarrow> go_error + json) \<Rightarrow> (json \<Rightarrow> 'v \<Rightarrow> 'v \<times> err) \<Rightarrow> (jsonServerCodec, 'v) ServerCodec" where
  "json_ServerCodec marshal unmarshal =
     \<lparr>ReadRequestHeader = js_ReadRequestHeader,
      ReadRequestBody = (\<lambda>c x. (c, js_ReadRequestBody unmarshal c x)),
      WriteResponse = js_WriteResponse marshal,
      CloseServerCodec = js_Close\<rparr>"

definition gob_ServerCodec ::
  "('v \<Rightarrow> go_error + gobval) \<Rightarrow> (gobval \<Rightarrow> 'v \<Rightarrow> 'v \<times> err) \<Rightarrow> (gobServerCodec, 'v) ServerCodec" where
  "gob_ServerCodec marshal unmarshal =
     \<lparr>ReadRequestHeader = gs_ReadRequestHeader, ReadRequestBody = gs_ReadRequestBody unmarshal,
      WriteResponse = gs_WriteResponse marshal, CloseServerCodec = gs_Close\<rparr>"

section \<open>One iteration of serveCodec\<close>

text \<open>
  The body of the loop of \<^verbatim>\<open>serveCodec\<close> when the goroutine it starts for a call runs at once;
  the flag says whether the loop goes on.
\<close>

definition serve_iter ::
  "('s, 'v) ServerCodec \<Rightarrow> 'v Reflect \<Rightarrow> 'v invocation \<Rightarrow> string list \<times> string list \<Rightarrow> string list \<times> string list
     \<Rightarrow> ('w, 'v) Server \<Rightarrow> 's \<Rightarrow> (('w, 'v) Server \<times> 's \<times> bool) outcome" where
  "serve_iter sc rf invoke rord word server s =
     (case readRequest sc rf rord server s of
        Panics m \<Rightarrow> Panics m | Blocks \<Rightarrow> Blocks
      | Returns (server1, s1, res) \<Rightarrow>
          (case rr_err res of
             Some e \<Rightarrow>
               if \<not> rr_keepReading res then Returns (server1, s1, False)
               else (case rr_req res of
                       None \<Rightarrow> Returns (server1, s1, True)
                     | Some req \<Rightarrow>
                         (case sendResponse sc word server1 s1 req None (error_text e) of
                            Panics m \<Rightarrow> Panics m | Blocks \<Rightarrow> Blocks
                          | Returns (server2, s2) \<Rightarrow> Returns (server_freeRequest server2 req, s2, True)))
           | None \<Rightarrow>
               (case (rr_method res, rr_req res, rr_argv res, rr_replyVal res) of
                  (Some ref, Some req, Some argv, Some replyVal) \<Rightarrow>
                    (case Service_call sc invoke word server1 s1 ref req argv replyVal of
                       Panics m \<Rightarrow> Panics m | Blocks \<Rightarrow> Blocks
                     | Returns (server2, s2) \<Rightarrow> Returns (server2, s2, True))
                | _ \<Rightarrow> Panics ''invalid memory address or nil pointer dereference'')))"

subsection \<open>Lemmas\<close>

lemma lookup_method_reqs [simp]: "lookup_method (server\<lparr>reqs := p\<rparr>) = lookup_method server"
  by (rule ext) (simp add: lookup_method_def Let_def)

lemma find_method_reqs [simp]: "find_method (server\<lparr>reqs := p\<rparr>) = find_method server"
  by (simp add: find_method_def fun_eq_iff)

lemma getRequest_cleared: "getRequest p = (req, p') \<Longrightarrow> reqHeap p' req = zero_RpcRequest"
  by (auto simp: getRequest_def split: option.splits)

lemma getResponse_cleared: "getResponse p = (resp, p') \<Longrightarrow> respHeap p' resp = zero_RpcResponse"
  by (auto simp: getResponse_def split: option.splits)

lemma storeRequest_same: "reqHeap (storeRequest p r h) r = h" "storeRequest (storeRequest p r h') r h = storeRequest p r h"
  by (simp_all add: storeRequest_def)

lemma count_call_fields:
  "sv_plugins (count_call server ref) = sv_plugins server" "reqs (count_call server ref) = reqs server"
  "resps (count_call server ref) = resps server" "sv_world (count_call server ref) = sv_world server"
  by (simp_all add: count_call_def split: option.splits)

lemma invoke_counted:
  assumes "serviceMap server (fst ref) = Some svc" "svc_methods svc (snd ref) = Some meth"
    and "invoke (method_of meth) (svc_receiver svc) argv reply = Returns (rv, eo)"
  shows "invoke_method invoke (count_call server ref) ref argv reply
    = Returns (rv, case eo of None \<Rightarrow> [] | Some msg \<Rightarrow> msg)"
  using assms by (simp add: invoke_method_def find_method_def count_call_def)

text \<open>Without plugins, \<^verbatim>\<open>sendResponse\<close> hands the codec a header with the request's method and number.\<close>

lemma sendResponse_hands_over:
  assumes "plugins (sv_plugins server) = Map.empty"
    and "p = zero_RpcResponse\<lparr>resp_ServiceMethod := req_ServiceMethod (reqHeap (reqs server) req), resp_Error := e,
           resp_Seq := req_Seq (reqHeap (reqs server) req)\<rparr>"
    and "WriteResponse sc s p (if e = [] then x else None) = (s', w)"
  shows "\<exists>server'. sendResponse sc ([], []) server s req x e = Returns (server', s')
    \<and> serviceMap server' = serviceMap server \<and> sv_plugins server' = sv_plugins server \<and> reqs server' = reqs server"
proof -
  obtain resp pool where g: "getResponse (resps server) = (resp, pool)" by force
  note z = getResponse_cleared [OF g]
  have "(if e \<noteq> [] then h\<lparr>resp_Error := e\<rparr> else h) = h\<lparr>resp_Error := e\<rparr>" if "resp_Error h = []" for h :: RpcResponse
    using that by simp
  then show ?thesis
    using assms g z
    by (auto simp: sendResponse_def sendResponse_header_def sendResponse_write_def sendResponse_free_def
        spm_pre_write.no_plugins spm_post_write.no_plugins storeResponse_def zero_RpcResponse_def Let_def)
qed

section \<open>The loop of serveCodec\<close>

text \<open>\<^verbatim>\<open>serveCodec\<close> with fuel, each call run at once; after the loop the codec is closed.\<close>

fun serveCodec ::
  "('s, 'v) ServerCodec \<Rightarrow> 'v Reflect \<Rightarrow> 'v invocation \<Rightarrow> string list \<times> string list \<Rightarrow> string list \<times> string list
     \<Rightarrow> nat \<Rightarrow> ('w, 'v) Server \<Rightarrow> 's \<Rightarrow> (('w, 'v) Server \<times> 's) outcome option" where
  "serveCodec sc rf invoke rord word 0 server s = None"
| "serveCodec sc rf invoke rord word (Suc n) server s =
     (case serve_iter sc rf invoke rord word server s of
        Panics m \<Rightarrow> Some (Panics m)
      | Blocks \<Rightarrow> Some Blocks
      | Returns (server1, s1, True) \<Rightarrow> serveCodec sc rf invoke rord word n server1 s1
      | Returns (server1, s1, False) \<Rightarrow> Some (Returns (server1, fst (CloseServerCodec sc s1))))"

text \<open>The services a server may hold: every method's reply is a pointer.\<close>

definition services_wf :: "('w, 'v) Server \<Rightarrow> bool" where
  "services_wf server \<longleftrightarrow>
     (\<forall>svc \<in> ran (serviceMap server). \<forall>m \<in> ran (svc_methods svc). Elem (ReplyType m) \<noteq> None)"

lemma services_wfD:
  "services_wf server \<Longrightarrow> serviceMap server n = Some svc \<Longrightarrow> svc_methods svc k = Some m \<Longrightarrow> \<exists>t. Elem (ReplyType m) = Some t"
  by (fastforce simp: services_wf_def ran_def)

lemma services_wf_cong: "serviceMap server' = serviceMap server \<Longrightarrow> services_wf server' = services_wf server"
  by (simp add: services_wf_def)

lemma services_wf_count: "services_wf server \<Longrightarrow> services_wf (count_call server ref)"
  by (fastforce simp: services_wf_def count_call_def ran_def split: option.splits if_splits)

lemma lookup_method_finds:
  "lookup_method server m = Inr ref \<Longrightarrow> \<exists>svc meth. serviceMap server (fst ref) = Some svc \<and> svc_methods svc (snd ref) = Some meth"
  by (auto simp: lookup_method_def Let_def split: if_splits option.splits)

text \<open>Methods that return: neither a panic nor an endless loop.\<close>

definition invocation_total :: "'v invocation \<Rightarrow> bool" where
  "invocation_total invoke \<longleftrightarrow> (\<forall>m rc a r. \<exists>rv eo. invoke m rc a r = Returns (rv, eo))"

text \<open>What the loop relies on in a server codec.\<close>

locale server_codec =
  fixes sc :: "('s, 'v) ServerCodec" and input :: "'s \<Rightarrow> nat"
  assumes header_uses_input: "ReadRequestHeader sc s r = (s', q, None) \<Longrightarrow> input s' < input s"
    and body_input: "ReadRequestBody sc s x = (s', y, e) \<Longrightarrow> input s' \<le> input s"
    and write_input: "WriteResponse sc s p x = (s', e) \<Longrightarrow> input s' \<le> input s"
begin

lemma sendResponse_total:
  assumes "plugins (sv_plugins server) = Map.empty"
  shows "\<exists>server' s'. sendResponse sc ([], []) server s req x e = Returns (server', s') \<and> input s' \<le> input s
    \<and> serviceMap server' = serviceMap server \<and> sv_plugins server' = sv_plugins server"
proof -
  let ?p = "zero_RpcResponse\<lparr>resp_ServiceMethod := req_ServiceMethod (reqHeap (reqs server) req), resp_Error := e,
           resp_Seq := req_Seq (reqHeap (reqs server) req)\<rparr>"
  obtain s' w where w: "WriteResponse sc s ?p (if e = [] then x else None) = (s', w)" by force
  from sendResponse_hands_over [OF assms refl w] write_input [OF w] show ?thesis by blast
qed

lemma Service_call_total:
  assumes "plugins (sv_plugins server) = Map.empty" "services_wf server"
    and "serviceMap server (fst ref) = Some svc" "svc_methods svc (snd ref) = Some meth"
    and "invocation_total invoke"
  shows "\<exists>server' s'. Service_call sc invoke ([], []) server s ref req v r = Returns (server', s') \<and> input s' \<le> input s
    \<and> services_wf server' \<and> sv_plugins server' = sv_plugins server"
proof -
  obtain rv eo where "invoke (method_of meth) (svc_receiver svc) v r = Returns (rv, eo)"
    using assms(5) unfolding invocation_total_def by blast
  note i = invoke_counted [where invoke = invoke and argv = v and reply = r, OF assms(3,4) this]
  have "plugins (sv_plugins (count_call server ref)) = Map.empty" using assms(1) by (simp add: count_call_fields)
  from sendResponse_total [OF this, of s req "Some rv" "case eo of None \<Rightarrow> [] | Some msg \<Rightarrow> msg"] obtain server' s' where
    r: "sendResponse sc ([], []) (count_call server ref) s req (Some rv) (case eo of None \<Rightarrow> [] | Some msg \<Rightarrow> msg) = Returns (server', s')"
      "input s' \<le> input s" "serviceMap server' = serviceMap (count_call server ref)"
      "sv_plugins server' = sv_plugins (count_call server ref)" by blast
  have "services_wf (server_freeRequest server' req)"
    using services_wf_count [OF assms(2), of ref] r(3) by (simp add: services_wf_def server_freeRequest_def)
  with i r show ?thesis by (simp add: Service_call_def server_freeRequest_def count_call_fields)
qed

lemma readRequest_total:
  assumes pl: "plugins (sv_plugins server) = Map.empty" and wf: "services_wf server"
  shows "\<exists>server' s' res. readRequest sc rf ([], []) server s = Returns (server', s', res)
    \<and> serviceMap server' = serviceMap server \<and> sv_plugins server' = sv_plugins server
    \<and> (rr_keepReading res \<longrightarrow> input s' < input s)
    \<and> (rr_err res = None \<longrightarrow> rr_keepReading res \<and> (\<exists>ref req v r svc meth. rr_method res = Some ref \<and> rr_req res = Some req
         \<and> rr_argv res = Some v \<and> rr_replyVal res = Some r
         \<and> serviceMap server (fst ref) = Some svc \<and> svc_methods svc (snd ref) = Some meth))"
proof -
  obtain req pool where g: "getRequest (reqs server) = (req, pool)" by force
  obtain s1 q e where h: "ReadRequestHeader sc s (reqHeap pool req) = (s1, q, e)" by (metis prod_cases3)
  define server1 where "server1 = server\<lparr>reqs := storeRequest pool req q\<rparr>"
  have sm: "serviceMap server1 = serviceMap server" "sv_plugins server1 = sv_plugins server"
    by (simp_all add: server1_def)
  show ?thesis
  proof (cases e)
    case (Some er)
    then show ?thesis using g h sm by (simp add: readRequest_def readRequestHeader_def Let_def)
  next
    case None
    then have less: "input s1 < input s" using header_uses_input h by blast
    obtain s0 y0 e0 where b0: "ReadRequestBody sc s1 None = (s0, y0, e0)" by (metis prod_cases3)
    then have less0: "input s0 < input s" using less body_input [OF b0] by simp
    show ?thesis
    proof (cases "lookup_method server (req_ServiceMethod q)")
      case (Inl er)
      then show ?thesis using g h None sm less0 b0
        by (simp add: readRequest_def readRequestHeader_def Let_def)
    next
      case (Inr ref)
      obtain svc meth where m: "serviceMap server (fst ref) = Some svc" "svc_methods svc (snd ref) = Some meth"
        using lookup_method_finds [OF Inr] by blast
      obtain t where t: "Elem (ReplyType meth) = Some t" using services_wfD [OF wf m] by blast
      obtain s2 y e2 where b: "ReadRequestBody sc s1 (Some (new_arg rf (ArgType meth))) = (s2, y, e2)" by (metis prod_cases3)
      then have less2: "input s2 < input s" using less body_input [OF b] by simp
      show ?thesis
        using g h None Inr m t b less2 pl
        by (cases ref; cases e2) (simp_all add: readRequest_def readRequestHeader_def spm_pre_read.no_plugins spm_post_read.no_plugins
            find_method_def storeRequest_same Let_def)
    qed
  qed
qed

lemma serve_iter_total:
  assumes pl: "plugins (sv_plugins server) = Map.empty" and wf: "services_wf server"
    and inv: "invocation_total invoke"
  shows "\<exists>server' s' b. serve_iter sc rf invoke ([], []) ([], []) server s = Returns (server', s', b)
    \<and> services_wf server' \<and> sv_plugins server' = sv_plugins server \<and> (b \<longrightarrow> input s' < input s)"
proof -
  obtain server1 s1 res where r: "readRequest sc rf ([], []) server s = Returns (server1, s1, res)"
      "serviceMap server1 = serviceMap server" "sv_plugins server1 = sv_plugins server"
      "rr_keepReading res \<longrightarrow> input s1 < input s"
      "rr_err res = None \<longrightarrow> rr_keepReading res \<and> (\<exists>ref req v r svc meth. rr_method res = Some ref \<and> rr_req res = Some req
         \<and> rr_argv res = Some v \<and> rr_replyVal res = Some r
         \<and> serviceMap server (fst ref) = Some svc \<and> svc_methods svc (snd ref) = Some meth)"
    using readRequest_total [OF pl wf, of rf s] by (elim exE conjE) (rule that)
  have pl1: "plugins (sv_plugins server1) = Map.empty" using pl r(3) by simp
  have wf1: "services_wf server1" using wf r(2) services_wf_cong by blast
  show ?thesis
  proof (cases "rr_err res")
    case None
    then obtain ref req v rp svc meth where m: "rr_method res = Some ref" "rr_req res = Some req" "rr_argv res = Some v"
        "rr_replyVal res = Some rp" "serviceMap server1 (fst ref) = Some svc" "svc_methods svc (snd ref) = Some meth"
      using r(2,5) by auto
    obtain server2 s2 where "Service_call sc invoke ([], []) server1 s1 ref req v rp = Returns (server2, s2)" "input s2 \<le> input s1"
        "services_wf server2" "sv_plugins server2 = sv_plugins server1"
      using Service_call_total [OF pl1 wf1 m(5,6) inv, of s1 req v rp] by blast
    then show ?thesis using None m(1-4) r by (auto simp: serve_iter_def)
  next
    case (Some e)
    show ?thesis
    proof (cases "rr_keepReading res")
      case False
      then show ?thesis using Some r(1,3) wf1 by (auto simp: serve_iter_def)
    next
      case True
      show ?thesis
      proof (cases "rr_req res")
        case None
        then show ?thesis using \<open>rr_err res = Some e\<close> True r(1,3,4) wf1 by (auto simp: serve_iter_def)
      next
        case (Some req)
        obtain server2 s2 where s2: "sendResponse sc ([], []) server1 s1 req None (error_text e) = Returns (server2, s2)"
            "input s2 \<le> input s1" "serviceMap server2 = serviceMap server1" "sv_plugins server2 = sv_plugins server1"
          using sendResponse_total [OF pl1] by blast
        moreover have "services_wf (server_freeRequest server2 req)"
          using wf1 s2(3) by (simp add: services_wf_def server_freeRequest_def)
        ultimately show ?thesis using \<open>rr_err res = Some e\<close> True Some r(1,3,4)
          by (auto simp: serve_iter_def server_freeRequest_def)
      qed
    qed
  qed
qed

lemma serveCodec_returns:
  assumes "plugins (sv_plugins server) = Map.empty" "services_wf server" "input s < n"
    and inv: "invocation_total invoke"
  shows "\<exists>server' s'. serveCodec sc rf invoke ([], []) ([], []) n server s = Some (Returns (server', fst (CloseServerCodec sc s')))
    \<and> services_wf server'"
  using assms(1-3)
proof (induction n arbitrary: server s)
  case (Suc n)
  obtain server1 s1 b where i: "serve_iter sc rf invoke ([], []) ([], []) server s = Returns (server1, s1, b)"
      "services_wf server1" "sv_plugins server1 = sv_plugins server" "b \<longrightarrow> input s1 < input s"
    using serve_iter_total [OF Suc.prems(1,2) inv, of rf s] by blast
  show ?case
  proof (cases b)
    case True
    then obtain server' s' where "serveCodec sc rf invoke ([], []) ([], []) n server1 s1
        = Some (Returns (server', fst (CloseServerCodec sc s')))" "services_wf server'"
      using Suc.IH [of server1 s1] Suc.prems(1,3) i(2-4) by auto
    then show ?thesis using i(1) True by auto
  next
    case False
    then show ?thesis using i(1,2) by auto
  qed
qed simp

end

section \<open>The contract of a pair of codecs\<close>

text \<open>
  \<open>c_out\<close> and \<open>s_out\<close> are what the two sides have written, \<open>c_in\<close> and \<open>s_in\<close> what they
  still have to read; \<open>s_tag\<close> gives the client's sequence number for one of the server's.
  The values are those that survive the encoding, \<open>text_ok\<close> the texts that do.
\<close>

definition response_body_ok :: "('v \<Rightarrow> bool) \<Rightarrow> RpcResponse \<Rightarrow> 'v option \<Rightarrow> bool" where
  "response_body_ok val_ok p x \<longleftrightarrow>
     (if resp_Error p = [] then (\<exists>v. x = Some v \<and> val_ok v) else x = None)"

locale codec_pair =
  fixes cc :: "('c, 'v) ClientCodec" and sc :: "('s, 'v) ServerCodec"
    and c_ready :: "'c \<Rightarrow> bool" and s_ready :: "'s \<Rightarrow> bool"
    and c_out :: "'c \<Rightarrow> 'm list" and s_out :: "'s \<Rightarrow> 'm list"
    and c_in :: "'c \<Rightarrow> (go_error + 'm) list" and s_in :: "'s \<Rightarrow> (go_error + 'm) list"
    and s_tag :: "'s \<Rightarrow> u64 \<Rightarrow> u64 option"
    and enc_req :: "RpcRequest \<Rightarrow> 'v \<Rightarrow> 'm list" and enc_resp :: "u64 \<Rightarrow> RpcResponse \<Rightarrow> 'v option \<Rightarrow> 'm list"
    and val_ok :: "'v \<Rightarrow> bool" and text_ok :: "string \<Rightarrow> bool"
  assumes write_request: "c_ready c \<Longrightarrow> val_ok v \<Longrightarrow>
      \<exists>c'. WriteRequest cc c r v = (c', None) \<and> c_out c' = c_out c @ enc_req r v \<and> c_in c' = c_in c \<and> c_ready c'"
    and read_request: "s_ready s \<Longrightarrow> val_ok v \<Longrightarrow> text_ok (req_ServiceMethod r) \<Longrightarrow> s_in s = map Inr (enc_req r v) @ rest \<Longrightarrow>
      \<exists>s1 q. ReadRequestHeader sc s zero_RpcRequest = (s1, q, None) \<and> req_ServiceMethod q = req_ServiceMethod r
        \<and> (\<forall>x. \<exists>s2. ReadRequestBody sc s1 x = (s2, map_option (\<lambda>_. v) x, None) \<and> s_ready s2 \<and> s_in s2 = rest
             \<and> s_out s2 = s_out s \<and> s_tag s2 (req_Seq q) = Some (req_Seq r))"
    and write_response: "s_ready s \<Longrightarrow> s_tag s (resp_Seq p) = Some k \<Longrightarrow> response_body_ok val_ok p x \<Longrightarrow>
      \<exists>s'. WriteResponse sc s p x = (s', None) \<and> s_out s' = s_out s @ enc_resp k p x \<and> s_in s' = s_in s \<and> s_ready s'"
    and read_response: "c_in c = map Inr (enc_resp k p x) @ rest \<Longrightarrow> text_ok (resp_Error p) \<Longrightarrow> response_body_ok val_ok p x \<Longrightarrow>
      \<exists>c1 h. ReadResponseHeader cc c zero_RpcResponse = (c1, h, None) \<and> resp_Seq h = k \<and> resp_Error h = resp_Error p
        \<and> (\<forall>y. y = None \<or> resp_Error p = [] \<longrightarrow>
             (\<exists>c2. ReadResponseBody cc c1 y = Returns (c2, if y = None then None else x, None) \<and> c_in c2 = rest))"
begin

lemma start_call:
  assumes "\<not> closing cl" "\<not> shutdown cl" "c_ready (codec cl)" "val_ok v"
  shows "\<exists>c cl1. Call_start cc cl m v (Some y) = Returns (c, cl1)
    \<and> c_out (codec cl1) = c_out (codec cl) @ enc_req ((request cl)\<lparr>req_Seq := seq cl, req_ServiceMethod := m\<rparr>) v
    \<and> c_in (codec cl1) = c_in (codec cl) \<and> pending cl1 = (pending cl)(seq cl \<mapsto> c) \<and> cl_plugins cl1 = cl_plugins cl
    \<and> calls cl1 c = \<lparr>call_ServiceMethod = m, call_Args = v, call_Reply = Some y, call_Error = None, call_Done = next_addr cl\<rparr>
    \<and> chans cl1 (next_addr cl) = \<lparr>chan_cap = 1, chan_buf = []\<rparr>"
proof -
  let ?rq = "(request cl)\<lparr>req_Seq := seq cl, req_ServiceMethod := m\<rparr>"
  obtain c' where "WriteRequest cc (codec cl) ?rq v = (c', None)"
      "c_out c' = c_out (codec cl) @ enc_req ?rq v" "c_in c' = c_in (codec cl)"
    using write_request [OF assms(3,4)] by blast
  then show ?thesis
    using assms(1,2)
    by (simp add: Call_start_def make_chan_def Go_def Go_call_def send_def send_register_def register_call_def send_write_def Let_def)
qed

lemma finish_call:
  assumes "c_in (codec cl) = map Inr (enc_resp k p x) @ rest" "text_ok (resp_Error p)" "response_body_ok val_ok p x"
    and "pending cl k = Some c" "plugins (cl_plugins cl) = Map.empty"
    and "calls cl c = \<lparr>call_ServiceMethod = m, call_Args = v, call_Reply = Some y, call_Error = None, call_Done = ch\<rparr>"
    and "chans cl ch = \<lparr>chan_cap = 1, chan_buf = []\<rparr>"
  shows "\<exists>cl'. receive_iter cc ([], []) cl = Returns (cl', None) \<and> c_in (codec cl') = rest \<and> pending cl' = (pending cl)(k := None)
    \<and> (if resp_Error p = [] then Call_wait cl' c = Some None \<and> call_Reply (calls cl' c) = x
       else Call_wait cl' c = Some (Some (ServerError (resp_Error p))))"
proof -
  obtain c1 h where h: "ReadResponseHeader cc (codec cl) zero_RpcResponse = (c1, h, None)" "resp_Seq h = k"
      "resp_Error h = resp_Error p"
      "\<forall>y. y = None \<or> resp_Error p = [] \<longrightarrow>
         (\<exists>c2. ReadResponseBody cc c1 y = Returns (c2, if y = None then None else x, None) \<and> c_in c2 = rest)"
    using read_response [OF assms(1-3)] by blast
  show ?thesis
  proof (cases "resp_Error p = []")
    case True
    then obtain c2 where "ReadResponseBody cc c1 (Some y) = Returns (c2, x, None)" "c_in c2 = rest"
      using spec [OF h(4), of "Some y"] by auto
    with h(1-3) True assms(4-7) show ?thesis
      by (simp add: receive_iter_def take_call_def receive_dispatch_def cpm_pre_read.no_plugins receive_reply_def
          cpm_post_read.no_plugins wrap_error_def Call_wait_def call_done_def Let_def)
  next
    case False
    obtain c2 where "ReadResponseBody cc c1 None = Returns (c2, None, None)" "c_in c2 = rest"
      using spec [OF h(4), of None] by auto
    with h(1-3) False assms(4-7) show ?thesis
      by (simp add: receive_iter_def take_call_def receive_dispatch_def cpm_pre_read.no_plugins receive_error_def
          wrap_error_def Call_wait_def call_done_def Let_def)
  qed
qed

lemma serve_call:
  assumes pl: "plugins (sv_plugins server) = Map.empty"
    and s: "s_ready s" "val_ok v" "text_ok (req_ServiceMethod r)" "s_in s = map Inr (enc_req r v) @ rest"
    and look: "lookup_method server (req_ServiceMethod r) = Inr ref"
    and meth: "serviceMap server (fst ref) = Some svc" "svc_methods svc (snd ref) = Some meth" "Elem (ReplyType meth) = Some t"
    and inv: "invoke (method_of meth) (svc_receiver svc) v (new_reply rf t) = Returns (rv, eo)" "val_ok rv" "eo \<noteq> Some []"
  shows "\<exists>server' s' p. serve_iter sc rf invoke ([], []) ([], []) server s = Returns (server', s', True)
    \<and> s_out s' = s_out s @ enc_resp (req_Seq r) p (if eo = None then Some rv else None) \<and> s_in s' = rest \<and> s_ready s'
    \<and> resp_Error p = (case eo of None \<Rightarrow> [] | Some msg \<Rightarrow> msg)
    \<and> response_body_ok val_ok p (if eo = None then Some rv else None)
    \<and> resp_ServiceMethod p = req_ServiceMethod r \<and> resp_next p = None"
proof -
  obtain req pool where g: "getRequest (reqs server) = (req, pool)" by force
  obtain s1 q where q: "ReadRequestHeader sc s zero_RpcRequest = (s1, q, None)" "req_ServiceMethod q = req_ServiceMethod r"
      "\<forall>x. \<exists>s2. ReadRequestBody sc s1 x = (s2, map_option (\<lambda>_. v) x, None) \<and> s_ready s2 \<and> s_in s2 = rest
         \<and> s_out s2 = s_out s \<and> s_tag s2 (req_Seq q) = Some (req_Seq r)"
    using read_request [OF s] by blast
  obtain s2 where s2: "ReadRequestBody sc s1 (Some (new_arg rf (ArgType meth))) = (s2, Some v, None)" "s_ready s2"
      "s_in s2 = rest" "s_out s2 = s_out s" "s_tag s2 (req_Seq q) = Some (req_Seq r)"
    using spec [OF q(3), of "Some (new_arg rf (ArgType meth))"] by auto
  define server1 where "server1 = server\<lparr>reqs := storeRequest pool req q\<rparr>"
  have sm: "serviceMap server1 = serviceMap server" "sv_plugins server1 = sv_plugins server"
      "reqHeap (reqs server1) req = q"
    by (simp_all add: server1_def storeRequest_def)
  have rd: "readRequest sc rf ([], []) server s = Returns (server1, s2,
      \<lparr>rr_method = Some ref, rr_req = Some req, rr_argv = Some v, rr_replyVal = Some (new_reply rf t), rr_keepReading = True,
       rr_err = None\<rparr>)"
    using g q(1,2) s2(1) look meth pl getRequest_cleared [OF g]
    by (simp add: readRequest_def readRequestHeader_def spm_pre_read.no_plugins spm_post_read.no_plugins find_method_def
        server1_def storeRequest_same Let_def)
  define e where "e = (case eo of None \<Rightarrow> [] | Some msg \<Rightarrow> msg)"
  define p where "p = zero_RpcResponse\<lparr>resp_ServiceMethod := req_ServiceMethod q, resp_Error := e, resp_Seq := req_Seq q\<rparr>"
  have eo: "e = [] \<longleftrightarrow> eo = None" using inv(3) by (auto simp: e_def split: option.splits)
  have p: "resp_Seq p = req_Seq q" "resp_Error p = e" "resp_ServiceMethod p = req_ServiceMethod q" "resp_next p = None"
    by (simp_all add: p_def zero_RpcResponse_def)
  have ok: "response_body_ok val_ok p (if eo = None then Some rv else None)"
    using eo inv(2) p(2) by (auto simp: response_body_ok_def)
  obtain s3 where s3: "WriteResponse sc s2 p (if eo = None then Some rv else None) = (s3, None)"
      "s_out s3 = s_out s2 @ enc_resp (req_Seq r) p (if eo = None then Some rv else None)" "s_in s3 = s_in s2" "s_ready s3"
    using write_response [OF s2(2) _ ok] s2(5) p(1) by auto
  have "invoke_method invoke (count_call server1 ref) ref v (new_reply rf t) = Returns (rv, e)"
    using invoke_counted [of server1 ref svc meth invoke] meth(1,2) inv(1) sm(1) by (simp add: e_def)
  moreover obtain server2 where "sendResponse sc ([], []) (count_call server1 ref) s2 req (Some rv) e = Returns (server2, s3)"
    using sendResponse_hands_over [of "count_call server1 ref" p req e sc s2 "Some rv" s3 None] pl sm s3(1) eo
    by (auto simp: count_call_fields p_def)
  ultimately have "Service_call sc invoke ([], []) server1 s2 ref req v (new_reply rf t) = Returns (server_freeRequest server2 req, s3)"
    by (simp add: Service_call_def Let_def)
  then have "serve_iter sc rf invoke ([], []) ([], []) server s = Returns (server_freeRequest server2 req, s3, True)"
    using rd by (simp add: serve_iter_def)
  then show ?thesis using s3 s2(3,4) p(2-4) ok q(2) by (auto simp: e_def)
qed

text \<open>The whole call: what the client waits for after it was served.\<close>

lemma call_completes:
  assumes cl: "\<not> closing cl" "\<not> shutdown cl" "plugins (cl_plugins cl) = Map.empty" "c_ready (codec cl)" "val_ok v"
    and st: "Call_start cc cl m v (Some y) = Returns (c, cl1)"
    and pl: "plugins (sv_plugins server) = Map.empty" and s: "s_ready s" "text_ok m"
      "s_in s = map Inr (drop (length (c_out (codec cl))) (c_out (codec cl1))) @ rest"
    and look: "lookup_method server m = Inr ref"
    and meth: "serviceMap server (fst ref) = Some svc" "svc_methods svc (snd ref) = Some meth" "Elem (ReplyType meth) = Some t"
    and inv: "invoke (method_of meth) (svc_receiver svc) v (new_reply rf t) = Returns (rv, eo)" "val_ok rv" "eo \<noteq> Some []"
      "text_ok (case eo of None \<Rightarrow> [] | Some msg \<Rightarrow> msg)"
    and sv: "serve_iter sc rf invoke ([], []) ([], []) server s = Returns (server', s', go_on)"
    and ci: "c_in (codec cl1) = map Inr (drop (length (s_out s)) (s_out s')) @ rest'"
  shows "go_on \<and> s_in s' = rest \<and> (\<exists>cl2. receive_iter cc ([], []) cl1 = Returns (cl2, None) \<and> c_in (codec cl2) = rest'
    \<and> pending cl2 = (pending cl)(seq cl := None)
    \<and> (case eo of
         None \<Rightarrow> Call_wait cl2 c = Some None \<and> call_Reply (calls cl2 c) = Some rv
       | Some msg \<Rightarrow> Call_wait cl2 c = Some (Some (ServerError msg))))"
proof -
  let ?rq = "(request cl)\<lparr>req_Seq := seq cl, req_ServiceMethod := m\<rparr>"
  let ?x = "if eo = None then Some rv else None"
  have c1: "c_out (codec cl1) = c_out (codec cl) @ enc_req ?rq v" "pending cl1 = (pending cl)(seq cl \<mapsto> c)"
      "cl_plugins cl1 = cl_plugins cl" "chans cl1 (next_addr cl) = \<lparr>chan_cap = 1, chan_buf = []\<rparr>"
      "calls cl1 c = \<lparr>call_ServiceMethod = m, call_Args = v, call_Reply = Some y, call_Error = None, call_Done = next_addr cl\<rparr>"
    using start_call [OF cl(1,2,4,5), of m y] st by auto
  have "text_ok (req_ServiceMethod ?rq)" "s_in s = map Inr (enc_req ?rq v) @ rest" "lookup_method server (req_ServiceMethod ?rq) = Inr ref"
    using s(2,3) c1(1) look by simp_all
  from serve_call [where invoke = invoke and rf = rf and eo = eo, OF pl s(1) cl(5) this meth inv(1-3)] sv obtain p where
    p: "go_on" "s_out s' = s_out s @ enc_resp (seq cl) p ?x" "s_in s' = rest"
      "resp_Error p = (case eo of None \<Rightarrow> [] | Some msg \<Rightarrow> msg)" "response_body_ok val_ok p ?x"
    by auto
  have "c_in (codec cl1) = map Inr (enc_resp (seq cl) p ?x) @ rest'" using ci p(2) by simp
  moreover have "text_ok (resp_Error p)" using inv(4) p(4) by simp
  moreover have "pending cl1 (seq cl) = Some c" "plugins (cl_plugins cl1) = Map.empty" using c1(2,3) cl(3) by simp_all
  ultimately obtain cl2 where cl2: "receive_iter cc ([], []) cl1 = Returns (cl2, None)" "c_in (codec cl2) = rest'"
      "pending cl2 = (pending cl1)(seq cl := None)"
      "if resp_Error p = [] then Call_wait cl2 c = Some None \<and> call_Reply (calls cl2 c) = ?x
       else Call_wait cl2 c = Some (Some (ServerError (resp_Error p)))"
    using finish_call [OF _ _ p(5) _ _ c1(5,4), of "seq cl" rest'] by blast
  have "case eo of None \<Rightarrow> Call_wait cl2 c = Some None \<and> call_Reply (calls cl2 c) = Some rv
       | Some msg \<Rightarrow> Call_wait cl2 c = Some (Some (ServerError msg))"
    using cl2(4) p(4) inv(3) by (cases eo) simp_all
  then show ?thesis using p(1,3) cl2(1-3) c1(2) by auto
qed

end

section \<open>The two pairs of codecs\<close>

definition json_value :: "('v \<Rightarrow> go_error + json) \<Rightarrow> (json \<Rightarrow> 'v \<Rightarrow> 'v \<times> err) \<Rightarrow> 'v \<Rightarrow> bool" where
  "json_value marshal unmarshal v \<longleftrightarrow> (\<exists>j. marshal v = Inr j \<and> j \<noteq> JNull \<and> (\<forall>y. unmarshal j y = (v, None)))"

definition gob_value :: "('v \<Rightarrow> go_error + gobval) \<Rightarrow> (gobval \<Rightarrow> 'v \<Rightarrow> 'v \<times> err) \<Rightarrow> 'v \<Rightarrow> bool" where
  "gob_value marshal unmarshal v \<longleftrightarrow> (\<exists>g. marshal v = Inr g \<and> (\<forall>y. unmarshal g y = (v, None)))"

text \<open>The number of the client's that stands as the id of a pending request of the JSON server codec.\<close>

definition json_tag :: "jsonServerCodec \<Rightarrow> u64 \<Rightarrow> u64 option" where
  "json_tag s n =
     (case js_pending s n of
        Some (Some (JNum l)) \<Rightarrow>
          (case strconv_ParseUint l of Some k \<Rightarrow> if encode_uint64 k = JNum l then Some k else None | None \<Rightarrow> None)
      | _ \<Rightarrow> None)"

lemma json_tag_iff: "json_tag s n = Some k \<longleftrightarrow> js_pending s n = Some (Some (encode_uint64 k))"
proof
  assume "js_pending s n = Some (Some (encode_uint64 k))"
  then show "json_tag s n = Some k" by (simp add: json_tag_def encode_uint64_def)
next
  assume t: "json_tag s n = Some k"
  then obtain l where l: "js_pending s n = Some (Some (JNum l))"
    by (auto simp: json_tag_def simp del: not_Some_eq split: option.split_asm json.split_asm)
  with t have "encode_uint64 k = JNum l" by (auto simp: json_tag_def split: option.split_asm if_split_asm)
  with l show "js_pending s n = Some (Some (encode_uint64 k))" by simp
qed

definition json_request :: "('v \<Rightarrow> go_error + json) \<Rightarrow> RpcRequest \<Rightarrow> 'v \<Rightarrow> json list" where
  "json_request marshal r v = [encode_clientRequest
     \<lparr>creq_Method = req_ServiceMethod r, creq_Params = projr (marshal v), creq_Id = req_Seq r\<rparr>]"

definition json_response :: "('v \<Rightarrow> go_error + json) \<Rightarrow> u64 \<Rightarrow> RpcResponse \<Rightarrow> 'v option \<Rightarrow> json list" where
  "json_response marshal k p x = [response_json (Some (encode_uint64 k)) (resp_Error p) (projr (marshal_reply marshal x))]"

interpretation jsonp: codec_pair "json_ClientCodec marshal unmarshal show_json" "json_ServerCodec marshal unmarshal"
  "\<lambda>c. jc_encErr c = None" "\<lambda>s. js_encErr s = None" jc_enc js_enc jc_dec js_dec json_tag
  "json_request marshal" "json_response marshal" "json_value marshal unmarshal" "\<lambda>s. coerceUTF8 s = s"
  for marshal unmarshal show_json
proof
  fix c :: jsonClientCodec and v :: 'a and r assume "jc_encErr c = None" "json_value marshal unmarshal v"
  then show "\<exists>c'. WriteRequest (json_ClientCodec marshal unmarshal show_json) c r v = (c', None)
      \<and> jc_enc c' = jc_enc c @ json_request marshal r v \<and> jc_dec c' = jc_dec c \<and> jc_encErr c' = None"
    by (auto simp: json_ClientCodec_def json_value_def json_request_def jc_WriteRequest_ok)
next
  fix s :: jsonServerCodec and v :: 'a and r rest
  assume s: "js_encErr s = None" and v: "json_value marshal unmarshal v" and u: "coerceUTF8 (req_ServiceMethod r) = req_ServiceMethod r"
    and i: "js_dec s = map Inr (json_request marshal r v) @ rest"
  obtain j where j: "marshal v = Inr j" "j \<noteq> JNull" "\<And>y. unmarshal j y = (v, None)" using v by (auto simp: json_value_def)
  let ?s1 = "s\<lparr>js_dec := rest, js_seq := js_seq s + 1,
         js_req := \<lparr>sreq_Method = req_ServiceMethod r, sreq_Params = Some (JArr [j]), sreq_Id = None\<rparr>,
         js_pending := (js_pending s)(js_seq s + 1 \<mapsto> Some (encode_uint64 (req_Seq r)))\<rparr>"
  have h: "js_ReadRequestHeader s zero_RpcRequest
      = (?s1, zero_RpcRequest\<lparr>req_ServiceMethod := req_ServiceMethod r, req_Seq := js_seq s + 1\<rparr>, None)"
    using i j(1) by (intro js_ReadRequestHeader_request u) (simp add: json_request_def)
  have b: "js_ReadRequestBody unmarshal ?s1 x = (map_option (\<lambda>_. v) x, None)" for x
    using js_ReadRequestBody_request [of ?s1 j unmarshal] j(2,3) by (cases x) (simp_all add: js_ReadRequestBody_def)
  show "\<exists>s1 q. ReadRequestHeader (json_ServerCodec marshal unmarshal) s zero_RpcRequest = (s1, q, None)
        \<and> req_ServiceMethod q = req_ServiceMethod r
        \<and> (\<forall>x. \<exists>s2. ReadRequestBody (json_ServerCodec marshal unmarshal) s1 x = (s2, map_option (\<lambda>_. v) x, None)
             \<and> js_encErr s2 = None \<and> js_dec s2 = rest \<and> js_enc s2 = js_enc s \<and> json_tag s2 (req_Seq q) = Some (req_Seq r))"
    using h b s by (simp add: json_ServerCodec_def json_tag_iff)
next
  fix s :: jsonServerCodec and p k and x :: "'a option"
  assume s: "js_encErr s = None" "json_tag s (resp_Seq p) = Some k" and x: "response_body_ok (json_value marshal unmarshal) p x"
  have "marshal_reply marshal x = Inr (projr (marshal_reply marshal x))"
    using x by (auto simp: response_body_ok_def json_value_def marshal_reply_def split: if_splits)
  from js_WriteResponse_pending [of s p "Some (encode_uint64 k)" marshal x, OF _ s(1) this] s
  show "\<exists>s'. WriteResponse (json_ServerCodec marshal unmarshal) s p x = (s', None)
      \<and> js_enc s' = js_enc s @ json_response marshal k p x \<and> js_dec s' = js_dec s \<and> js_encErr s' = None"
    by (simp add: json_tag_iff json_ServerCodec_def json_response_def)
next
  fix c :: jsonClientCodec and k p and x :: "'a option" and rest
  assume i: "jc_dec c = map Inr (json_response marshal k p x) @ rest" and u: "coerceUTF8 (resp_Error p) = resp_Error p"
    and x: "response_body_ok (json_value marshal unmarshal) p x"
  let ?j = "projr (marshal_reply marshal x)"
  have j: "resp_Error p = [] \<Longrightarrow> ?j \<noteq> JNull \<and> (\<exists>v. x = Some v \<and> (\<forall>y. unmarshal ?j y = (v, None)))"
    using x by (auto simp: response_body_ok_def json_value_def marshal_reply_def)
  have "jc_dec c = Inr (response_json (Some (encode_uint64 k)) (resp_Error p) ?j) # rest"
    using i by (simp add: json_response_def)
  from jc_ReadResponseHeader_response [OF this _ u, of show_json zero_RpcResponse] j
  show "\<exists>c1 h. ReadResponseHeader (json_ClientCodec marshal unmarshal show_json) c zero_RpcResponse = (c1, h, None)
        \<and> resp_Seq h = k \<and> resp_Error h = resp_Error p
        \<and> (\<forall>y. y = None \<or> resp_Error p = [] \<longrightarrow>
             (\<exists>c2. ReadResponseBody (json_ClientCodec marshal unmarshal show_json) c1 y
                = Returns (c2, if y = None then None else x, None) \<and> jc_dec c2 = rest))"
    by (auto simp: json_ClientCodec_def jc_ReadResponseBody_def split: option.splits)
qed

definition gob_request :: "('v \<Rightarrow> go_error + gobval) \<Rightarrow> RpcRequest \<Rightarrow> 'v \<Rightarrow> gobval list" where
  "gob_request marshal r v = [gob_RpcRequest r, projr (marshal v)]"

definition gob_response :: "('v \<Rightarrow> go_error + gobval) \<Rightarrow> u64 \<Rightarrow> RpcResponse \<Rightarrow> 'v option \<Rightarrow> gobval list" where
  "gob_response marshal k p x = [gob_RpcResponse (p\<lparr>resp_Seq := k\<rparr>), projr (gob_reply marshal x)]"

interpretation gobp: codec_pair "gob_ClientCodec marshal unmarshal" "gob_ServerCodec marshal unmarshal"
  gc_healthy gs_healthy gc_enc gs_enc gc_dec gs_dec "\<lambda>_. Some"
  "gob_request marshal" "gob_response marshal" "gob_value marshal unmarshal" "\<lambda>_. True"
  for marshal unmarshal
proof
  fix c :: gobClientCodec and v :: 'a and r assume "gc_healthy c" "gob_value marshal unmarshal v"
  then show "\<exists>c'. WriteRequest (gob_ClientCodec marshal unmarshal) c r v = (c', None)
      \<and> gc_enc c' = gc_enc c @ gob_request marshal r v \<and> gc_dec c' = gc_dec c \<and> gc_healthy c'"
    by (auto simp: gob_ClientCodec_def gob_value_def gob_request_def gc_WriteRequest_healthy gc_healthy_def)
next
  fix s :: gobServerCodec and v :: 'a and r rest
  assume s: "gs_healthy s" "gob_value marshal unmarshal v" "gs_dec s = map Inr (gob_request marshal r v) @ rest"
  then obtain g where g: "marshal v = Inr g" "\<And>y. unmarshal g y = (v, None)" by (auto simp: gob_value_def)
  have b: "gob_body unmarshal g x = (map_option (\<lambda>_. v) x, None)" for x using g(2) by (cases x) (simp_all add: gob_body_def)
  show "\<exists>s1 q. ReadRequestHeader (gob_ServerCodec marshal unmarshal) s zero_RpcRequest = (s1, q, None)
        \<and> req_ServiceMethod q = req_ServiceMethod r
        \<and> (\<forall>x. \<exists>s2. ReadRequestBody (gob_ServerCodec marshal unmarshal) s1 x = (s2, map_option (\<lambda>_. v) x, None)
             \<and> gs_healthy s2 \<and> gs_dec s2 = rest \<and> gs_enc s2 = gs_enc s \<and> Some (req_Seq q) = Some (req_Seq r))"
    using s g(1) b
    by (simp add: gob_ServerCodec_def gs_ReadRequestHeader_def gs_ReadRequestBody_def gob_request_def gob_Decode_value
        decode_gob_request gs_healthy_def)
next
  fix s :: gobServerCodec and p k and x :: "'a option"
  assume "gs_healthy s" "Some (resp_Seq p) = Some k" "response_body_ok (gob_value marshal unmarshal) p x"
  then show "\<exists>s'. WriteResponse (gob_ServerCodec marshal unmarshal) s p x = (s', None)
      \<and> gs_enc s' = gs_enc s @ gob_response marshal k p x \<and> gs_dec s' = gs_dec s \<and> gs_healthy s'"
    by (auto simp: gob_ServerCodec_def gs_WriteResponse_healthy gob_response_def response_body_ok_def gob_value_def
        gob_reply_def gs_healthy_def split: if_splits)
next
  fix c :: gobClientCodec and k p and x :: "'a option" and rest
  assume i: "gc_dec c = map Inr (gob_response marshal k p x) @ rest" and x: "response_body_ok (gob_value marshal unmarshal) p x"
  let ?g = "projr (gob_reply marshal x)"
  have "resp_Error p = [] \<Longrightarrow> \<exists>v. x = Some v \<and> (\<forall>y. unmarshal ?g y = (v, None))"
    using x by (auto simp: response_body_ok_def gob_value_def gob_reply_def)
  then have b: "y = None \<or> resp_Error p = [] \<Longrightarrow> gob_body unmarshal ?g y = (if y = None then None else x, None)" for y
    by (cases y) (auto simp: gob_body_def)
  show "\<exists>c1 h. ReadResponseHeader (gob_ClientCodec marshal unmarshal) c zero_RpcResponse = (c1, h, None)
        \<and> resp_Seq h = k \<and> resp_Error h = resp_Error p
        \<and> (\<forall>y. y = None \<or> resp_Error p = [] \<longrightarrow>
             (\<exists>c2. ReadResponseBody (gob_ClientCodec marshal unmarshal) c1 y
                = Returns (c2, if y = None then None else x, None) \<and> gc_dec c2 = rest))"
    using i b
    by (simp add: gob_ClientCodec_def gc_ReadResponseHeader_def gc_ReadResponseBody_def gob_response_def gob_Decode_value
        decode_gob_response)
qed

lemma json_next_input: "json_next s = (x, s') \<Longrightarrow> length s' \<le> length s"
  by (cases s rule: json_next.cases) auto

interpretation jsons: server_codec "json_ServerCodec marshal unmarshal" "\<lambda>s. length (js_dec s)"
  for marshal :: "'v \<Rightarrow> go_error + json" and unmarshal
proof
  fix s s' :: jsonServerCodec and r q p and x y :: "'v option" and e
  show "ReadRequestHeader (json_ServerCodec marshal unmarshal) s r = (s', q, None) \<Longrightarrow> length (js_dec s') < length (js_dec s)"
    by (auto simp: json_ServerCodec_def js_ReadRequestHeader_def js_register_def Let_def dest!: json_next_Inr
        split: sum.splits prod.splits option.splits)
  show "ReadRequestBody (json_ServerCodec marshal unmarshal) s x = (s', y, e) \<Longrightarrow> length (js_dec s') \<le> length (js_dec s)"
    by (simp add: json_ServerCodec_def)
  show "WriteResponse (json_ServerCodec marshal unmarshal) s p x = (s', e) \<Longrightarrow> length (js_dec s') \<le> length (js_dec s)"
    by (auto simp: json_ServerCodec_def js_WriteResponse_def js_take_def js_Encode_def Let_def
        split: option.splits if_splits sum.splits)
qed

interpretation gobs: server_codec "gob_ServerCodec marshal unmarshal" "\<lambda>s. length (gs_dec s)"
  for marshal :: "'v \<Rightarrow> go_error + gobval" and unmarshal
proof
  fix s s' :: gobServerCodec and r q p and x y :: "'v option" and e
  show "ReadRequestHeader (gob_ServerCodec marshal unmarshal) s r = (s', q, None) \<Longrightarrow> length (gs_dec s') < length (gs_dec s)"
    by (auto simp: gob_ServerCodec_def gs_ReadRequestHeader_def dest: gob_Decode_uses_input split: prod.splits)
  show "ReadRequestBody (gob_ServerCodec marshal unmarshal) s x = (s', y, e) \<Longrightarrow> length (gs_dec s') \<le> length (gs_dec s)"
    by (auto simp: gob_ServerCodec_def gs_ReadRequestBody_def dest: gob_Decode_input split: prod.splits)
  have "gs_dec (fst (gs_Encode g v)) = gs_dec g" "gs_dec (fst (gs_Flush g)) = gs_dec g" "gs_dec (fst (gs_fail g er)) = gs_dec g" for g v er
    by (simp_all add: gs_Encode_def gs_Flush_def gs_fail_def gs_Close_def split: sum.splits option.splits)
  note d = this
  show "WriteResponse (gob_ServerCodec marshal unmarshal) s p x = (s', e) \<Longrightarrow> length (gs_dec s') \<le> length (gs_dec s)"
    using d(1) [of s "Inr (gob_RpcResponse p)"] d(1) [of _ "gob_reply marshal x"] d(2,3)
    by (auto simp: gob_ServerCodec_def gs_WriteResponse_def split: prod.splits option.splits) (metis fst_conv order_refl)+
qed

text \<open>A server with one method, which adds nothing and answers \<open>9\<close>; numbers are their own values.\<close>

definition demo_svc :: Service where
  "demo_svc = \<lparr>svc_name = ''calc'', svc_aliasName = [], svc_receiver = demo_receiver,
     svc_methods = [''Add'' \<mapsto> method_entry demo_method]\<rparr>"

definition demo_calc :: "(unit, nat) Server" where
  "demo_calc = demo_sv\<lparr>serviceMap := [''calc'' \<mapsto> demo_svc]\<rparr>"

definition demo_invoke :: "nat invocation" where
  "demo_invoke m rc a r = Returns (9, None)"

definition demo_reflect :: "nat Reflect" where
  "demo_reflect = \<lparr>reflect_New = (\<lambda>_. 0), reflect_MakeMap = (\<lambda>_. 0), reflect_MakeSlice = (\<lambda>_. 0)\<rparr>"

definition nat_json :: "nat \<Rightarrow> go_error + json" where
  "nat_json n = Inr (JArr (replicate n JNull))"

fun json_nat :: "json \<Rightarrow> nat \<Rightarrow> nat \<times> err" where
  "json_nat (JArr xs) old = (length xs, None)"
| "json_nat _ old = (old, Some UnmarshalTypeError)"

definition nat_gob :: "nat \<Rightarrow> go_error + gobval" where
  "nat_gob n = Inr (GOther n)"

fun gob_nat :: "gobval \<Rightarrow> nat \<Rightarrow> nat \<times> err" where
  "gob_nat (GOther n) old = (n, None)"
| "gob_nat _ old = (old, Some gob_mismatch)"

definition demo_call :: "nat Call" where
  "demo_call = \<lparr>call_ServiceMethod = [], call_Args = 0, call_Reply = None, call_Error = None, call_Done = 0\<rparr>"

definition demo_jc :: "(jsonClientCodec, unit, nat) Client" where
  "demo_jc = NewClientWithCodec demo_call
     (NewJsonClientCodec [Inr (response_json (Some (encode_uint64 0)) [] (JArr (replicate 9 JNull)))]) ()"

definition demo_gc :: "(gobClientCodec, unit, nat) Client" where
  "demo_gc = NewClient demo_call
     [Inr (gob_RpcResponse (zero_RpcResponse\<lparr>resp_ServiceMethod := ''calc.Add''\<rparr>)), Inr (GOther 9)] ()"

lemma demo_jc_facts:
  "\<not> closing demo_jc" "\<not> shutdown demo_jc" "plugins (cl_plugins demo_jc) = Map.empty" "jc_encErr (codec demo_jc) = None"
  "jc_enc (codec demo_jc) = []" "seq demo_jc = 0"
  "jc_dec (codec demo_jc) = [Inr (response_json (Some (encode_uint64 0)) [] (JArr (replicate 9 JNull)))]"
  by (simp_all add: demo_jc_def NewClientWithCodec_def newClientPluginManager_def NewJsonClientCodec_def)

lemma demo_gc_facts:
  "\<not> closing demo_gc" "\<not> shutdown demo_gc" "plugins (cl_plugins demo_gc) = Map.empty" "gc_healthy (codec demo_gc)"
  "gc_enc (codec demo_gc) = []" "seq demo_gc = 0"
  "gc_dec (codec demo_gc) = [Inr (gob_RpcResponse (zero_RpcResponse\<lparr>resp_ServiceMethod := ''calc.Add''\<rparr>)), Inr (GOther 9)]"
  by (simp_all add: demo_gc_def NewClient_def NewClientWithCodec_def newClientPluginManager_def NewGobClientCodec_def gc_healthy_def)

lemma demo_calc_facts:
  "plugins (sv_plugins demo_calc) = Map.empty" "lookup_method demo_calc ''calc.Add'' = Inr (''calc'', ''Add'')"
  "serviceMap demo_calc (fst (''calc'', ''Add'')) = Some demo_svc"
  "svc_methods demo_svc (snd (''calc'', ''Add'')) = Some (method_entry demo_method)"
  "Elem (ReplyType (method_entry demo_method)) = Some (RType ''int'' [] OtherKind)" "services_wf demo_calc"
  by (simp_all add: demo_calc_def demo_svc_def demo_sv_def newServerPluginManager_def lookup_method_def strings_LastIndex_def Let_def
      method_entry_def demo_method_def services_wf_def)

lemma nat_values: "json_value nat_json json_nat n" "gob_value nat_gob gob_nat n"
  by (simp_all add: json_value_def gob_value_def nat_json_def nat_gob_def)

lemma register_adds:
  assumes "register upper ord server r al useAlias = Returns (server', e)" "serviceMap server' n = Some svc"
  shows "serviceMap server n = Some svc \<or> registerMethods upper (recv_methods r) False = Inr (svc_methods svc)"
  using assms
  by (cases "registerMethods upper (recv_methods r) False")
     (auto simp: register_def Let_def split: outcome.splits if_splits option.splits)

lemma demo_invoke_returns: "demo_invoke m rc a r = Returns (9, None)"
  by (simp add: demo_invoke_def)

lemma demo_invoke_total: "invocation_total demo_invoke"
  by (simp add: invocation_total_def demo_invoke_def)

section \<open>Properties\<close>

text \<open>
  C5. A call over the JSON codecs, from \<^verbatim>\<open>Call\<close> to its return. The client starts the call; the
  server, which finds the method and whose method returns the reply \<open>rv\<close> and the error \<open>eo\<close>,
  reads what the client wrote, calls the method and answers; the client reads the answer:
  then the wait of \<^verbatim>\<open>Call\<close> is over, with \<open>rv\<close> in the reply and no error, or with the method's
  error as a \<^verbatim>\<open>ServerError\<close>. Both connections have been read exactly up to what follows the
  call. The argument and the reply are values that survive the encoding, the texts are UTF-8.
\<close>

theorem json_rpc_call:
  assumes "\<not> closing cl" "\<not> shutdown cl" "plugins (cl_plugins cl) = Map.empty" "jc_encErr (codec cl) = None"
    and "json_value marshal unmarshal v"
    and "Call_start (json_ClientCodec marshal unmarshal show_json) cl m v (Some y) = Returns (c, cl1)"
    and "plugins (sv_plugins server) = Map.empty" "js_encErr s = None" "coerceUTF8 m = m"
    and "js_dec s = map Inr (drop (length (jc_enc (codec cl))) (jc_enc (codec cl1))) @ rest"
    and "lookup_method server m = Inr ref"
    and "serviceMap server (fst ref) = Some svc" "svc_methods svc (snd ref) = Some meth" "Elem (ReplyType meth) = Some t"
    and "invoke (method_of meth) (svc_receiver svc) v (new_reply rf t) = Returns (rv, eo)"
    and "json_value marshal unmarshal rv" "eo \<noteq> Some []"
    and "coerceUTF8 (case eo of None \<Rightarrow> [] | Some msg \<Rightarrow> msg) = (case eo of None \<Rightarrow> [] | Some msg \<Rightarrow> msg)"
    and "serve_iter (json_ServerCodec marshal unmarshal) rf invoke ([], []) ([], []) server s = Returns (server', s', go_on)"
    and "jc_dec (codec cl1) = map Inr (drop (length (js_enc s)) (js_enc s')) @ rest'"
  shows "go_on \<and> js_dec s' = rest
    \<and> (\<exists>cl2. receive_iter (json_ClientCodec marshal unmarshal show_json) ([], []) cl1 = Returns (cl2, None)
         \<and> jc_dec (codec cl2) = rest' \<and> pending cl2 = (pending cl)(seq cl := None)
         \<and> (case eo of
              None \<Rightarrow> Call_wait cl2 c = Some None \<and> call_Reply (calls cl2 c) = Some rv
            | Some msg \<Rightarrow> Call_wait cl2 c = Some (Some (ServerError msg))))"
  using assms by (rule jsonp.call_completes)

theorem json_rpc_call_witness:
  "\<exists>c cl1 server' s' cl2.
    Call_start (json_ClientCodec nat_json json_nat (\<lambda>_. [])) demo_jc ''calc.Add'' 5 (Some 0) = Returns (c, cl1)
    \<and> serve_iter (json_ServerCodec nat_json json_nat) demo_reflect demo_invoke ([], []) ([], []) demo_calc
        (NewJsonServerCodec (map Inr (jc_enc (codec cl1)))) = Returns (server', s', True)
    \<and> receive_iter (json_ClientCodec nat_json json_nat (\<lambda>_. [])) ([], []) cl1 = Returns (cl2, None)
    \<and> Call_wait cl2 c = Some None \<and> call_Reply (calls cl2 c) = Some 9"
proof -
  let ?cc = "json_ClientCodec nat_json json_nat (\<lambda>_. [])"
  define rq where "rq = (request demo_jc)\<lparr>req_Seq := seq demo_jc, req_ServiceMethod := ''calc.Add''\<rparr>"
  obtain c cl1 where st: "Call_start ?cc demo_jc ''calc.Add'' 5 (Some 0) = Returns (c, cl1)"
      "jc_enc (codec cl1) = json_request nat_json rq 5" "jc_dec (codec cl1) = jc_dec (codec demo_jc)"
    using jsonp.start_call [where m = "''calc.Add''" and y = 0 and v = 5 and show_json = "\<lambda>_. []",
        OF demo_jc_facts(1,2,4) nat_values(1)] demo_jc_facts(5) unfolding rq_def by auto
  define s where "s = NewJsonServerCodec (map Inr (jc_enc (codec cl1)))"
  have s: "js_encErr s = None" "js_enc s = []" "js_dec s = map Inr (json_request nat_json rq 5) @ []"
    using st(2) by (simp_all add: s_def NewJsonServerCodec_def)
  have rq: "req_ServiceMethod rq = ''calc.Add''" "req_Seq rq = 0" by (simp_all add: rq_def demo_jc_facts(6))
  have u: "coerceUTF8 ''calc.Add'' = ''calc.Add''" "coerceUTF8 [] = []" by (simp_all add: coerceUTF8_ascii)
  have l: "coerceUTF8 (req_ServiceMethod rq) = req_ServiceMethod rq"
    "lookup_method demo_calc (req_ServiceMethod rq) = Inr (''calc'', ''Add'')"
    unfolding rq using u(1) demo_calc_facts(2) by simp_all
  obtain server' s' p where sv: "serve_iter (json_ServerCodec nat_json json_nat) demo_reflect demo_invoke ([], []) ([], []) demo_calc s
        = Returns (server', s', True)" "js_enc s' = json_response nat_json 0 p (Some 9)" "resp_Error p = []"
    using jsonp.serve_call [where rf = demo_reflect and invoke = demo_invoke, OF demo_calc_facts(1) s(1) nat_values(1) l(1) s(3) l(2) demo_calc_facts(3-5)
        demo_invoke_returns nat_values(1)] s(2) rq(2) by auto
  have "js_enc s' = [response_json (Some (encode_uint64 0)) [] (JArr (replicate 9 JNull))]"
    using sv(2,3) by (simp add: json_response_def marshal_reply_def nat_json_def)
  then have ci: "jc_dec (codec cl1) = map Inr (drop (length (js_enc s)) (js_enc s')) @ []"
    using st(3) demo_jc_facts(7) s(2) by simp
  have si: "js_dec s = map Inr (drop (length (jc_enc (codec demo_jc))) (jc_enc (codec cl1))) @ []"
    using s(3) st(2) demo_jc_facts(5) by simp
  have "\<exists>cl2. receive_iter ?cc ([], []) cl1 = Returns (cl2, None) \<and> Call_wait cl2 c = Some None \<and> call_Reply (calls cl2 c) = Some 9"
    using json_rpc_call [where rf = demo_reflect and invoke = demo_invoke, OF demo_jc_facts(1-4) nat_values(1) st(1) demo_calc_facts(1) s(1) u(1) si
        demo_calc_facts(2-5) demo_invoke_returns nat_values(1) _ _ sv(1) ci] u(2) by auto
  then show ?thesis using st(1) sv(1) unfolding s_def by blast
qed

text \<open>
  C6. A call over the gob codecs, from \<^verbatim>\<open>Call\<close> to its return: as over the JSON codecs, for every
  method name and error text.
\<close>

theorem gob_rpc_call:
  assumes "\<not> closing cl" "\<not> shutdown cl" "plugins (cl_plugins cl) = Map.empty" "gc_healthy (codec cl)"
    and "gob_value marshal unmarshal v"
    and "Call_start (gob_ClientCodec marshal unmarshal) cl m v (Some y) = Returns (c, cl1)"
    and "plugins (sv_plugins server) = Map.empty" "gs_healthy s"
    and "gs_dec s = map Inr (drop (length (gc_enc (codec cl))) (gc_enc (codec cl1))) @ rest"
    and "lookup_method server m = Inr ref"
    and "serviceMap server (fst ref) = Some svc" "svc_methods svc (snd ref) = Some meth" "Elem (ReplyType meth) = Some t"
    and "invoke (method_of meth) (svc_receiver svc) v (new_reply rf t) = Returns (rv, eo)"
    and "gob_value marshal unmarshal rv" "eo \<noteq> Some []"
    and "serve_iter (gob_ServerCodec marshal unmarshal) rf invoke ([], []) ([], []) server s = Returns (server', s', go_on)"
    and "gc_dec (codec cl1) = map Inr (drop (length (gs_enc s)) (gs_enc s')) @ rest'"
  shows "go_on \<and> gs_dec s' = rest
    \<and> (\<exists>cl2. receive_iter (gob_ClientCodec marshal unmarshal) ([], []) cl1 = Returns (cl2, None)
         \<and> gc_dec (codec cl2) = rest' \<and> pending cl2 = (pending cl)(seq cl := None)
         \<and> (case eo of
              None \<Rightarrow> Call_wait cl2 c = Some None \<and> call_Reply (calls cl2 c) = Some rv
            | Some msg \<Rightarrow> Call_wait cl2 c = Some (Some (ServerError msg))))"
  by (rule gobp.call_completes [OF assms(1-8) _ assms(9-16) _ assms(17,18)]) simp_all

theorem gob_rpc_call_witness:
  "\<exists>c cl1 server' s' cl2.
    Call_start (gob_ClientCodec nat_gob gob_nat) demo_gc ''calc.Add'' 5 (Some 0) = Returns (c, cl1)
    \<and> serve_iter (gob_ServerCodec nat_gob gob_nat) demo_reflect demo_invoke ([], []) ([], []) demo_calc
        (NewGobServerCodec (map Inr (gc_enc (codec cl1)))) = Returns (server', s', True)
    \<and> receive_iter (gob_ClientCodec nat_gob gob_nat) ([], []) cl1 = Returns (cl2, None)
    \<and> Call_wait cl2 c = Some None \<and> call_Reply (calls cl2 c) = Some 9"
proof -
  let ?cc = "gob_ClientCodec nat_gob gob_nat"
  define rq where "rq = (request demo_gc)\<lparr>req_Seq := seq demo_gc, req_ServiceMethod := ''calc.Add''\<rparr>"
  obtain c cl1 where st: "Call_start ?cc demo_gc ''calc.Add'' 5 (Some 0) = Returns (c, cl1)"
      "gc_enc (codec cl1) = gob_request nat_gob rq 5" "gc_dec (codec cl1) = gc_dec (codec demo_gc)"
    using gobp.start_call [where m = "''calc.Add''" and y = 0 and v = 5,
        OF demo_gc_facts(1,2,4) nat_values(2)] demo_gc_facts(5) unfolding rq_def by auto
  define s where "s = NewGobServerCodec (map Inr (gc_enc (codec cl1)))"
  have s: "gs_healthy s" "gs_enc s = []" "gs_dec s = map Inr (gob_request nat_gob rq 5) @ []"
    using st(2) by (simp_all add: s_def NewGobServerCodec_def gs_healthy_def)
  have rq: "req_ServiceMethod rq = ''calc.Add''" "req_Seq rq = 0" by (simp_all add: rq_def demo_gc_facts(6))
  have l: "lookup_method demo_calc (req_ServiceMethod rq) = Inr (''calc'', ''Add'')"
    unfolding rq using demo_calc_facts(2) by simp
  obtain server' s' p where sv: "serve_iter (gob_ServerCodec nat_gob gob_nat) demo_reflect demo_invoke ([], []) ([], []) demo_calc s
        = Returns (server', s', True)" "gs_enc s' = gob_response nat_gob 0 p (Some 9)" "resp_Error p = []"
      "resp_ServiceMethod p = ''calc.Add''" "resp_next p = None"
    using gobp.serve_call [where rf = demo_reflect and invoke = demo_invoke, OF demo_calc_facts(1) s(1) nat_values(2) TrueI s(3) l demo_calc_facts(3-5)
        demo_invoke_returns nat_values(2)] s(2) rq by auto
  have "p\<lparr>resp_Seq := 0\<rparr> = zero_RpcResponse\<lparr>resp_ServiceMethod := ''calc.Add''\<rparr>"
    using sv(3-5) by (simp add: zero_RpcResponse_def)
  then have "gs_enc s' = [gob_RpcResponse (zero_RpcResponse\<lparr>resp_ServiceMethod := ''calc.Add''\<rparr>), GOther 9]"
    using sv(2) by (simp add: gob_response_def gob_reply_def nat_gob_def)
  then have ci: "gc_dec (codec cl1) = map Inr (drop (length (gs_enc s)) (gs_enc s')) @ []"
    using st(3) demo_gc_facts(7) s(2) by simp
  have si: "gs_dec s = map Inr (drop (length (gc_enc (codec demo_gc))) (gc_enc (codec cl1))) @ []"
    using s(3) st(2) demo_gc_facts(5) by simp
  have "\<exists>cl2. receive_iter ?cc ([], []) cl1 = Returns (cl2, None) \<and> Call_wait cl2 c = Some None \<and> call_Reply (calls cl2 c) = Some 9"
    using gob_rpc_call [where rf = demo_reflect and invoke = demo_invoke, OF demo_gc_facts(1-4) nat_values(2) st(1) demo_calc_facts(1) s(1) si
        demo_calc_facts(2-5) demo_invoke_returns nat_values(2) _ sv(1) ci] by auto
  then show ?thesis using st(1) sv(1) unfolding s_def by blast
qed

text \<open>
  C15. \<^verbatim>\<open>serveCodec\<close> ends on the gob codec: if the methods return, then for every finite input,
  whatever the peer sent, the loop ends without a panic within one iteration more than there
  are values in the input, and the codec is closed. The services are of the kind that
  registration makes.
\<close>

theorem gob_serveCodec_returns:
  assumes "plugins (sv_plugins server) = Map.empty" "services_wf server" "invocation_total invoke"
  shows "\<exists>server' s'. serveCodec (gob_ServerCodec marshal unmarshal) rf invoke ([], []) ([], []) (Suc (length (gs_dec s))) server s
      = Some (Returns (server', s')) \<and> gs_closed s' \<and> services_wf server'"
proof -
  obtain server' s' where "serveCodec (gob_ServerCodec marshal unmarshal) rf invoke ([], []) ([], []) (Suc (length (gs_dec s))) server s
      = Some (Returns (server', fst (CloseServerCodec (gob_ServerCodec marshal unmarshal) s')))" "services_wf server'"
    using gobs.serveCodec_returns [OF assms(1,2) _ assms(3), of s "Suc (length (gs_dec s))"] by blast
  then show ?thesis by (auto simp: gob_ServerCodec_def gs_Close_def)
qed

theorem gob_serveCodec_returns_witness:
  "\<exists>server' s'. serveCodec (gob_ServerCodec nat_gob gob_nat) demo_reflect demo_invoke ([], []) ([], []) 3 demo_calc
      (NewGobServerCodec [Inr (gob_RpcRequest gob_demo_request), Inr (GOther 5)]) = Some (Returns (server', s')) \<and> gs_closed s'"
  using gob_serveCodec_returns [OF demo_calc_facts(1,6) demo_invoke_total, of nat_gob gob_nat demo_reflect
      "NewGobServerCodec [Inr (gob_RpcRequest gob_demo_request), Inr (GOther 5)]"]
  by (simp add: NewGobServerCodec_def eval_nat_numeral) blast

text \<open>
  C14. \<^verbatim>\<open>serveCodec\<close> ends on the JSON codec, in the same way.
\<close>

theorem json_serveCodec_returns:
  assumes "plugins (sv_plugins server) = Map.empty" "services_wf server" "invocation_total invoke"
  shows "\<exists>server' s'. serveCodec (json_ServerCodec marshal unmarshal) rf invoke ([], []) ([], []) (Suc (length (js_dec s))) server s
      = Some (Returns (server', s')) \<and> js_closed s' \<and> services_wf server'"
proof -
  obtain server' s' where "serveCodec (json_ServerCodec marshal unmarshal) rf invoke ([], []) ([], []) (Suc (length (js_dec s))) server s
      = Some (Returns (server', fst (CloseServerCodec (json_ServerCodec marshal unmarshal) s')))" "services_wf server'"
    using jsons.serveCodec_returns [OF assms(1,2) _ assms(3), of s "Suc (length (js_dec s))"] by blast
  then show ?thesis by (auto simp: json_ServerCodec_def js_Close_def)
qed

theorem json_serveCodec_returns_witness:
  "\<exists>server' s'. serveCodec (json_ServerCodec nat_json json_nat) demo_reflect demo_invoke ([], []) ([], []) 2 demo_calc
      (NewJsonServerCodec [Inr JNull]) = Some (Returns (server', s')) \<and> js_closed s'"
  using json_serveCodec_returns [OF demo_calc_facts(1,6) demo_invoke_total, of nat_json json_nat demo_reflect
      "NewJsonServerCodec [Inr JNull]"]
  by (simp add: NewJsonServerCodec_def eval_nat_numeral) blast

text \<open>
  C16. The types of registered methods: a new server has no service, and every registration, also
  one that fails, keeps every method's reply a pointer, which is what \<^verbatim>\<open>readRequest\<close> needs to
  make the reply value without a panic.
\<close>

theorem registration_keeps_types:
  assumes "newRpcServerWithOptions listen w conf = Returns server0"
    and "services_wf server" "register upper ord server r al useAlias = Returns (server', e)"
  shows "services_wf server0 \<and> services_wf server'"
proof
  show "services_wf server0"
    using assms(1) by (auto simp: newRpcServerWithOptions_def server_check_def initListener_def services_wf_def
        split: option.splits sum.splits outcome.splits)
  have pub: "m \<in> ran ms \<Longrightarrow> Elem (ReplyType m) \<noteq> None" if "registerMethods upper (recv_methods r) False = Inr ms" for ms m
  proof -
    assume m: "m \<in> ran ms"
    have "ms = published upper (recv_methods r)"
      using registerMethods_loop_strict [of "recv_methods r" upper Map.empty] that
      by (auto simp: registerMethods_def split: if_splits)
    with m obtain rm where "suitable upper rm" "m = method_entry rm"
      by (auto simp: published_def ran_def dest!: map_of_SomeD)
    then show ?thesis by (auto simp: suitable_def method_entry_def)
  qed
  have "Elem (ReplyType m) \<noteq> None" if "serviceMap server' n = Some svc" "m \<in> ran (svc_methods svc)" for n svc m
    using register_adds [OF assms(3) that(1)] pub [OF _ that(2)] assms(2) that(2) by (auto simp: services_wf_def ran_def)
  then show "services_wf server'" by (fastforce simp: services_wf_def ran_def)
qed

theorem registration_keeps_types_witness:
  "\<exists>s server'. newRpcServerWithOptions (\<lambda>_. Inr ''h:1'') () DefaultConfig = Returns s
    \<and> RegisterServiceWithName ascii_upper [] demo_sv demo_receiver ''calc'' = Returns (server', None)
    \<and> services_wf (s :: (unit, nat) Server) \<and> services_wf server'"
proof -
  obtain s :: "(unit, nat) Server" where s: "newRpcServerWithOptions (\<lambda>_. Inr ''h:1'') () DefaultConfig = Returns s"
    by (simp add: newRpcServerWithOptions_def server_check_def initListener_def cfg_check_def)
  obtain server' where r: "RegisterServiceWithName ascii_upper [] demo_sv demo_receiver ''calc'' = Returns (server', None)"
    using demo_registered by blast
  have "services_wf demo_sv" by (simp add: services_wf_def demo_sv_def)
  from registration_keeps_types [OF s this r [unfolded RegisterServiceWithName_def, simplified]] s r show ?thesis by blast
qed

end
