(* ===== verification/ClientSystem.thy ===== *)
theory ClientSystem
  imports RpcClient
begin

text \<open>
  The client under concurrency: any number of goroutines in \<^verbatim>\<open>Go\<close> or \<^verbatim>\<open>Call\<close>, the
  goroutine that runs \<^verbatim>\<open>receive\<close>, and callers of \<^verbatim>\<open>Close\<close>. A step is one section of the
  code between two points where a mutex is taken or released. The codec is arbitrary: every
  step that calls it may use any behaviour of the interface, so the results hold for every
  codec and every peer.
\<close>

section \<open>States and steps\<close>

text \<open>Where a goroutine in \<^verbatim>\<open>send\<close> is: before the lock, between registration and write, returned.\<close>

datatype send_pc = SReady | SWriting u64 | SReturned

text \<open>
  Where \<^verbatim>\<open>receive\<close> is: at the top of the loop, with a header read and its call taken, out of
  the loop with an error, or returned.
\<close>

datatype recv_pc = RHeader | RTaken RpcResponse "nat option" | RBroken go_error | RReturned

text \<open>
  \<open>reqMutex\<close> is the call whose \<^verbatim>\<open>send\<close> holds the mutex; \<open>nreg\<close> counts registrations (a
  history variable: it says when the 64-bit sequence number would wrap around).
\<close>

record ('c, 'w, 'v) csys =
  client :: "('c, 'w, 'v) Client"
  reqMutex :: "nat option"
  spc :: "nat \<rightharpoonup> send_pc"
  rpc :: recv_pc
  nreg :: nat

definition csys_init :: "('c, 'w, 'v) Client \<Rightarrow> ('c, 'w, 'v) csys" where
  "csys_init cl = \<lparr>client = cl, reqMutex = None, spc = Map.empty, rpc = RHeader, nreg = 0\<rparr>"

inductive client_step :: "('c, 'w, 'v) csys \<Rightarrow> ('c, 'w, 'v) csys \<Rightarrow> bool" where
  make: "client_step s (s\<lparr>client := snd (make_chan n (client s))\<rparr>)"
| start: "Go_call (client s) sm args reply dn = Returns (c, cl') \<Longrightarrow>
    client_step s (s\<lparr>client := cl', spc := (spc s)(c \<mapsto> SReady)\<rparr>)"
| refuse: "spc s c = Some SReady \<Longrightarrow> reqMutex s = None \<Longrightarrow> send_register (client s) c = (None, cl') \<Longrightarrow>
    client_step s (s\<lparr>client := cl', spc := (spc s)(c \<mapsto> SReturned)\<rparr>)"
| register: "spc s c = Some SReady \<Longrightarrow> reqMutex s = None \<Longrightarrow> send_register (client s) c = (Some k, cl') \<Longrightarrow>
    client_step s (s\<lparr>client := cl', spc := (spc s)(c \<mapsto> SWriting k), reqMutex := Some c, nreg := Suc (nreg s)\<rparr>)"
| written: "spc s c = Some (SWriting k) \<Longrightarrow> send_write cc (client s) c k = (cl', None) \<Longrightarrow>
    client_step s (s\<lparr>client := cl', spc := (spc s)(c \<mapsto> SReturned), reqMutex := None\<rparr>)"
| unwritten: "spc s c = Some (SWriting k) \<Longrightarrow> send_write cc (client s) c k = (cl', Some e) \<Longrightarrow>
    client_step s (s\<lparr>client := send_unregister cl' k e, spc := (spc s)(c \<mapsto> SReturned), reqMutex := None\<rparr>)"
| header: "rpc s = RHeader \<Longrightarrow> ReadResponseHeader (cc :: ('c, 'v) ClientCodec) (codec (client s)) zero_RpcResponse = (c', resp, None) \<Longrightarrow>
    take_call ((client s)\<lparr>codec := c'\<rparr>) (resp_Seq resp) = (co, cl') \<Longrightarrow>
    client_step s (s\<lparr>client := cl', rpc := RTaken resp co\<rparr>)"
| noheader: "rpc s = RHeader \<Longrightarrow> ReadResponseHeader (cc :: ('c, 'v) ClientCodec) (codec (client s)) zero_RpcResponse = (c', resp, Some e) \<Longrightarrow>
    client_step s (s\<lparr>client := (client s)\<lparr>codec := c'\<rparr>, rpc := RBroken e\<rparr>)"
| dispatch: "rpc s = RTaken resp co \<Longrightarrow> receive_dispatch cc ord (client s) resp co = Returns (cl', e) \<Longrightarrow>
    client_step s (s\<lparr>client := cl', rpc := (case e of None \<Rightarrow> RHeader | Some er \<Rightarrow> RBroken er)\<rparr>)"
| terminate: "rpc s = RBroken e \<Longrightarrow> reqMutex s = None \<Longrightarrow> range_order (pending (client s)) ks \<Longrightarrow>
    client_step s (s\<lparr>client := receive_terminate ks e (client s), rpc := RReturned\<rparr>)"
| close: "Client_Close cc (client s) = (cl', e) \<Longrightarrow> client_step s (s\<lparr>client := cl'\<rparr>)"
| consume: "chan_buf (chans (client s) ch) = c # cs \<Longrightarrow>
    client_step s (s\<lparr>client := (client s)\<lparr>chans := (chans (client s))
      (ch := (chans (client s) ch)\<lparr>chan_buf := cs\<rparr>)\<rparr>\<rparr>)"

text \<open>The states a new client reaches.\<close>

inductive client_reach :: "('c, 'w, 'v) csys \<Rightarrow> bool" where
  init: "client_reach (csys_init (NewClientWithCodec nocall cc w))"
| step: "client_reach s \<Longrightarrow> client_step s t \<Longrightarrow> client_reach t"

inductive_cases client_stepE: "client_step s t"

section \<open>The invariant\<close>

text \<open>
  The calls whose \<^verbatim>\<open>send\<close> got past the first lock, the call the receiver has just taken
  out of the table, and the calls that are in the table or taken.
\<close>

definition started :: "('c, 'w, 'v) csys \<Rightarrow> nat set" where
  "started s = {c. \<exists>p. spc s c = Some p \<and> p \<noteq> SReady}"

definition taken :: "('c, 'w, 'v) csys \<Rightarrow> nat set" where
  "taken s = (case rpc s of RTaken r (Some c) \<Rightarrow> {c} | _ \<Rightarrow> {})"

definition in_flight :: "('c, 'w, 'v) csys \<Rightarrow> nat set" where
  "in_flight s = ran (pending (client s)) \<union> taken s"

definition writing :: "('c, 'w, 'v) csys \<Rightarrow> (nat \<times> u64) set" where
  "writing s = {(c, k). spc s c = Some (SWriting k)}"

definition table_inv :: "('c, 'w, 'v) csys \<Rightarrow> bool" where
  "table_inv s \<longleftrightarrow> client_invar (client s) \<and> unat (seq (client s)) = nreg s
     \<and> inj_on (pending (client s)) (dom (pending (client s)))
     \<and> ran (pending (client s)) \<inter> taken s = {}"

text \<open>A started call is done or in flight, and not both until \<^verbatim>\<open>receive\<close> has returned.\<close>

definition calls_inv :: "('c, 'w, 'v) csys \<Rightarrow> bool" where
  "calls_inv s \<longleftrightarrow>
     distinct (donelog (client s))
     \<and> started s = set (donelog (client s)) \<union> in_flight s
     \<and> (rpc s \<noteq> RReturned \<longrightarrow> set (donelog (client s)) \<inter> in_flight s = {})
     \<and> dom (spc s) \<subseteq> {..<next_addr (client s)}"

definition locks_inv :: "('c, 'w, 'v) csys \<Rightarrow> bool" where
  "locks_inv s \<longleftrightarrow>
     plugins (cl_plugins (client s)) = Map.empty
     \<and> (\<forall>(c, k) \<in> writing s. reqMutex s = Some c \<and> pending (client s) k \<in> {None, Some c})
     \<and> (rpc s = RReturned \<longrightarrow> shutdown (client s) \<and> writing s = {}
          \<and> ran (pending (client s)) \<subseteq> set (donelog (client s)))"

definition client_inv :: "('c, 'w, 'v) csys \<Rightarrow> bool" where
  "client_inv s \<longleftrightarrow> table_inv s \<and> calls_inv s \<and> locks_inv s"

lemmas view_defs = started_def taken_def in_flight_def writing_def

section \<open>What the sections change\<close>

lemma Go_call_result:
  assumes "Go_call cl sm args reply dn = Returns (c, cl')"
  shows "next_addr cl \<le> c \<and> c < next_addr cl' \<and> pending cl' = pending cl
    \<and> seq cl' = seq cl \<and> donelog cl' = donelog cl \<and> shutdown cl' = shutdown cl \<and> cl_plugins cl' = cl_plugins cl"
  using assms by (auto simp: Go_call_def Let_def split: option.splits if_splits)

lemma send_register_refused:
  assumes "send_register cl c = (None, cl')"
  shows "pending cl' = pending cl \<and> seq cl' = seq cl \<and> donelog cl' = c # donelog cl \<and> shutdown cl' = shutdown cl
    \<and> cl_plugins cl' = cl_plugins cl \<and> next_addr cl' = next_addr cl"
  using assms by (auto simp: send_register_def register_call_def Let_def split: if_splits)

lemma send_register_registered:
  assumes "send_register cl c = (Some k, cl')"
  shows "\<not> shutdown cl \<and> pending cl' = (pending cl)(k \<mapsto> c) \<and> seq cl' = seq cl + 1 \<and> donelog cl' = donelog cl
    \<and> shutdown cl' = shutdown cl \<and> cl_plugins cl' = cl_plugins cl \<and> next_addr cl' = next_addr cl"
  using assms by (auto simp: send_register_def register_call_def Let_def split: if_splits)

lemma send_register_call:
  "send_register cl c = (Some k, cl') \<Longrightarrow> register_call cl c = (k, cl')"
  by (auto simp: send_register_def split: if_splits prod.splits)

lemma send_write_fields:
  assumes "send_write cc cl c k = (cl', e)"
  shows "pending cl' = pending cl \<and> seq cl' = seq cl \<and> donelog cl' = donelog cl
    \<and> shutdown cl' = shutdown cl \<and> cl_plugins cl' = cl_plugins cl \<and> next_addr cl' = next_addr cl"
  using assms by (auto simp: send_write_def Let_def split: prod.splits)

lemma send_unregister_fields:
  "pending (send_unregister cl k e) = (pending cl)(k := None)" "seq (send_unregister cl k e) = seq cl"
  "donelog (send_unregister cl k e) = (case pending cl k of None \<Rightarrow> donelog cl | Some c \<Rightarrow> c # donelog cl)"
  "shutdown (send_unregister cl k e) = shutdown cl" "cl_plugins (send_unregister cl k e) = cl_plugins cl"
  "next_addr (send_unregister cl k e) = next_addr cl"
  by (auto simp: send_unregister_def take_call_def split: option.splits)

lemma receive_error_fields:
  assumes "receive_error cc cl = Returns (cl', e)"
  shows "pending cl' = pending cl \<and> seq cl' = seq cl \<and> donelog cl' = donelog cl
    \<and> shutdown cl' = shutdown cl \<and> cl_plugins cl' = cl_plugins cl \<and> next_addr cl' = next_addr cl"
  using assms by (auto simp: receive_error_def split: outcome.splits)

lemma receive_reply_fields:
  assumes "receive_reply cc ord cl resp c = Returns (cl', e)"
  shows "pending cl' = pending cl \<and> seq cl' = seq cl \<and> donelog cl' = c # donelog cl
    \<and> shutdown cl' = shutdown cl \<and> cl_plugins cl' = cl_plugins cl \<and> next_addr cl' = next_addr cl"
  using assms by (auto simp: receive_reply_def Let_def split: outcome.splits if_splits)

lemma receive_dispatch_fields:
  assumes "receive_dispatch cc ord cl resp co = Returns (cl', e)" "plugins (cl_plugins cl) = Map.empty"
  shows "pending cl' = pending cl \<and> seq cl' = seq cl
    \<and> donelog cl' = (case co of None \<Rightarrow> donelog cl | Some c \<Rightarrow> c # donelog cl)
    \<and> shutdown cl' = shutdown cl \<and> cl_plugins cl' = cl_plugins cl \<and> next_addr cl' = next_addr cl"
  using assms
  by (auto simp: receive_dispatch_def cpm_pre_read.no_plugins
      dest!: receive_error_fields receive_reply_fields split: option.splits if_splits outcome.splits)

lemma Client_Close_fields:
  assumes "Client_Close cc cl = (cl', e)"
  shows "pending cl' = pending cl \<and> seq cl' = seq cl \<and> donelog cl' = donelog cl
    \<and> shutdown cl' = shutdown cl \<and> cl_plugins cl' = cl_plugins cl \<and> next_addr cl' = next_addr cl"
  using assms by (auto simp: Client_Close_def Let_def split: if_splits prod.splits)

lemma receive_terminate_fields:
  "pending (receive_terminate ks e cl) = pending cl" "seq (receive_terminate ks e cl) = seq cl"
  "donelog (receive_terminate ks e cl) = rev (range_values (pending cl) ks) @ donelog cl"
  "shutdown (receive_terminate ks e cl)" "cl_plugins (receive_terminate ks e cl) = cl_plugins cl"
  "next_addr (receive_terminate ks e cl) = next_addr cl"
  by (simp_all add: receive_terminate_def)

section \<open>Every step keeps the invariant\<close>

lemma client_inv_init: "client_inv (csys_init (NewClientWithCodec nocall cc w))"
  by (simp add: client_inv_def table_inv_def calls_inv_def locks_inv_def view_defs csys_init_def
      client_invar_def NewClientWithCodec_def newClientPluginManager_def)

lemma client_invD:
  "client_inv s \<Longrightarrow> table_inv s" "client_inv s \<Longrightarrow> calls_inv s" "client_inv s \<Longrightarrow> locks_inv s"
  by (simp_all add: client_inv_def)

lemma locks_invD:
  "locks_inv s \<Longrightarrow> (c, k) \<in> writing s \<Longrightarrow> reqMutex s = Some c \<and> pending (client s) k \<in> {None, Some c}"
  unfolding locks_inv_def by blast

lemma one_writer: "locks_inv s \<Longrightarrow> (c, k) \<in> writing s \<Longrightarrow> writing s - {c} \<times> UNIV = {}"
  using locks_invD [of s] by (metis Diff_eq_empty_iff SigmaI UNIV_I option.inject singletonI subrelI)

text \<open>How the views change with the program counters.\<close>

lemma started_upd:
  "spc t = (spc s)(c \<mapsto> p) \<Longrightarrow> p \<noteq> SReady \<Longrightarrow> started t = insert c (started s)"
  "spc t = (spc s)(c \<mapsto> SReady) \<Longrightarrow> started t = started s - {c}"
  "spc t = spc s \<Longrightarrow> started t = started s"
  by (auto simp: started_def split: if_splits)

lemma writing_upd:
  "spc t = (spc s)(c \<mapsto> SWriting k) \<Longrightarrow> writing t = insert (c, k) (writing s - {c} \<times> UNIV)"
  "spc t = (spc s)(c \<mapsto> SReturned) \<Longrightarrow> writing t = writing s - {c} \<times> UNIV"
  "spc t = (spc s)(c \<mapsto> SReady) \<Longrightarrow> writing t = writing s - {c} \<times> UNIV"
  "spc t = spc s \<Longrightarrow> writing t = writing s"
  by (auto simp: writing_def split: if_splits)

lemma taken_same: "rpc t = rpc s \<Longrightarrow> taken t = taken s"
  by (simp add: taken_def)

lemma ready_call:
  assumes "calls_inv s" "spc s c = Some SReady \<or> spc s c = None"
  shows "c \<notin> started s" "c \<notin> set (donelog (client s))" "c \<notin> in_flight s" "(c, k) \<notin> writing s"
proof -
  show "c \<notin> started s" "(c, k) \<notin> writing s" using assms(2) by (auto simp: view_defs)
  then show "c \<notin> set (donelog (client s))" "c \<notin> in_flight s"
    using assms(1) unfolding calls_inv_def by blast+
qed

lemma ran_delete:
  "inj_on m (dom m) \<Longrightarrow> m k = Some c \<Longrightarrow> ran (m(k := None)) = ran m - {c}"
proof -
  assume inj: "inj_on m (dom m)" and k: "m k = Some c"
  have uniq: "a = k" if "m a = Some c" for a
    using inj_onD [OF inj, of a k] that k by auto
  show ?thesis
  proof (intro set_eqI iffI)
    fix x assume "x \<in> ran (m(k := None))"
    then obtain a where "a \<noteq> k" "m a = Some x" by (auto simp: ran_def split: if_splits)
    then show "x \<in> ran m - {c}" by (auto dest: uniq intro: ranI)
  next
    fix x assume "x \<in> ran m - {c}"
    then obtain a where "m a = Some x" "x \<noteq> c" by (auto simp: ran_def)
    then have "(m(k := None)) a = Some x" using k by auto
    then show "x \<in> ran (m(k := None))" by (rule ranI)
  qed
qed

lemma inj_on_delete: "inj_on m (dom m) \<Longrightarrow> inj_on (m(k := None)) (dom (m(k := None)))"
  by (auto simp: inj_on_def)

lemma inj_on_upd: "inj_on m (dom m) \<Longrightarrow> c \<notin> ran m \<Longrightarrow> inj_on (m(k \<mapsto> c)) (dom (m(k \<mapsto> c)))"
  by (auto simp: inj_on_def ran_def)

text \<open>A step that touches nothing the invariant speaks of, but possibly allocates.\<close>

lemma client_inv_frame:
  assumes inv: "client_inv s"
    and eqs: "pending (client t) = pending (client s)" "seq (client t) = seq (client s)"
      "donelog (client t) = donelog (client s)" "shutdown (client t) = shutdown (client s)"
      "cl_plugins (client t) = cl_plugins (client s)"
      "reqMutex t = reqMutex s" "spc t = spc s" "rpc t = rpc s" "nreg t = nreg s"
    and addr: "next_addr (client s) \<le> next_addr (client t)"
  shows "client_inv t"
proof -
  note views = started_upd(3) [OF eqs(7)] writing_upd(4) [OF eqs(7)] taken_same [OF eqs(8)]
  have fl: "in_flight t = in_flight s" by (simp add: in_flight_def views eqs)
  have "table_inv t = table_inv s" by (simp add: table_inv_def client_invar_def eqs views)
  moreover have "locks_inv t = locks_inv s" by (simp add: locks_inv_def eqs views)
  moreover have "calls_inv s \<Longrightarrow> calls_inv t"
    unfolding calls_inv_def fl eqs views using addr by auto
  ultimately show ?thesis using inv by (simp add: client_inv_def)
qed

lemma client_inv_start:
  assumes inv: "client_inv s" and go: "Go_call (client s) sm args reply dn = Returns (c, cl')"
  shows "client_inv (s\<lparr>client := cl', spc := (spc s)(c \<mapsto> SReady)\<rparr>)" (is "client_inv ?t")
proof -
  note g = Go_call_result [OF go] and calls = client_invD(2) [OF inv]
  have new: "spc s c = None"
    using calls g by (auto simp: calls_inv_def)
  have views: "started ?t = started s" "writing ?t = writing s" "taken ?t = taken s"
    using ready_call [OF calls, of c] new started_upd(2) [of ?t s c] writing_upd(3) [of ?t s c]
    by (auto simp: taken_def)
  have fl: "in_flight ?t = in_flight s" by (simp add: in_flight_def views g)
  have "table_inv ?t = table_inv s" by (simp add: table_inv_def client_invar_def g views)
  moreover have "locks_inv ?t = locks_inv s" by (simp add: locks_inv_def g views)
  moreover have "calls_inv ?t"
    using calls g unfolding calls_inv_def fl views by auto
  ultimately show ?thesis using inv by (simp add: client_inv_def)
qed

lemma client_inv_refuse:
  assumes inv: "client_inv s" and pc: "spc s c = Some SReady"
    and reg: "send_register (client s) c = (None, cl')"
  shows "client_inv (s\<lparr>client := cl', spc := (spc s)(c \<mapsto> SReturned)\<rparr>)" (is "client_inv ?t")
proof -
  note g = send_register_refused [OF reg] and calls = client_invD(2) [OF inv]
  note quiet = ready_call [OF calls disjI1, OF pc]
  have views: "started ?t = insert c (started s)" "writing ?t = writing s" "taken ?t = taken s"
    using quiet(4) started_upd(1) [of ?t s c SReturned] writing_upd(2) [of ?t s c]
    by (auto simp: taken_def)
  have fl: "in_flight ?t = in_flight s" by (simp add: in_flight_def views g)
  have "table_inv ?t = table_inv s" by (simp add: table_inv_def client_invar_def g views)
  moreover have "locks_inv s \<Longrightarrow> locks_inv ?t" by (auto simp: locks_inv_def g views)
  moreover have "calls_inv ?t"
    using calls g quiet pc unfolding calls_inv_def fl views by auto
  ultimately show ?thesis using inv by (simp add: client_inv_def)
qed

lemma client_inv_register:
  assumes inv: "client_inv s" and pc: "spc s c = Some SReady" and free: "reqMutex s = None"
    and reg: "send_register (client s) c = (Some k, cl')" and room: "Suc (nreg s) < 2 ^ 64"
  shows "client_inv (s\<lparr>client := cl', spc := (spc s)(c \<mapsto> SWriting k), reqMutex := Some c, nreg := Suc (nreg s)\<rparr>)"
    (is "client_inv ?t")
proof -
  note g = send_register_registered [OF reg] and tab = client_invD(1) [OF inv]
    and calls = client_invD(2) [OF inv] and locks = client_invD(3) [OF inv]
  note quiet = ready_call [OF calls disjI1, OF pc]
  have cinv: "client_invar (client s)" and sq: "unat (seq (client s)) < 2 ^ 64 - 1"
    using tab room by (simp_all add: table_inv_def)
  have fresh: "pending (client s) k = None"
    using cl.issue_fresh [OF cinv sq, of c] send_register_call [OF reg] by simp
  have nowriter: "writing s = {}" using locks free by (auto simp: locks_inv_def)
  have running: "rpc s \<noteq> RReturned" using locks g by (auto simp: locks_inv_def)
  have views: "started ?t = insert c (started s)" "writing ?t = {(c, k)}" "taken ?t = taken s"
    using nowriter started_upd(1) [of ?t s c "SWriting k"] writing_upd(1) [of ?t s c k]
    by (auto simp: taken_def)
  have ran: "ran (pending cl') = insert c (ran (pending (client s)))" using g fresh by simp
  have fl: "in_flight ?t = insert c (in_flight s)" by (simp add: in_flight_def views ran)
  have "client_invar cl'" "unat (seq cl') = Suc (nreg s)"
    using cl.issue_invar [OF cinv sq, of c] cl.issue_count [OF cinv sq, of c] send_register_call [OF reg] tab
    by (simp_all add: table_inv_def)
  moreover have "inj_on (pending cl') (dom (pending cl'))"
    using inj_on_upd [of "pending (client s)" c k] tab quiet(3) g by (simp add: table_inv_def in_flight_def)
  ultimately have "table_inv ?t"
    using tab quiet(3) ran by (simp add: table_inv_def views in_flight_def)
  moreover have "locks_inv ?t" using locks running g by (auto simp: locks_inv_def views)
  moreover have "calls_inv ?t"
    using calls g quiet pc running unfolding calls_inv_def fl views by auto
  ultimately show ?thesis by (simp add: client_inv_def)
qed

lemma client_inv_written:
  assumes inv: "client_inv s" and pc: "spc s c = Some (SWriting k)"
    and wr: "send_write cc (client s) c k = (cl', None)"
  shows "client_inv (s\<lparr>client := cl', spc := (spc s)(c \<mapsto> SReturned), reqMutex := None\<rparr>)" (is "client_inv ?t")
proof -
  note g = send_write_fields [OF wr] and calls = client_invD(2) [OF inv] and locks = client_invD(3) [OF inv]
  have w: "(c, k) \<in> writing s" "c \<in> started s" using pc by (auto simp: view_defs)
  have views: "started ?t = started s" "writing ?t = {}" "taken ?t = taken s"
    using w(2) started_upd(1) [of ?t s c SReturned] writing_upd(2) [of ?t s c] one_writer [OF locks w(1)]
    by (simp_all add: taken_def insert_absorb)
  have fl: "in_flight ?t = in_flight s" by (simp add: in_flight_def views g)
  have "table_inv ?t = table_inv s" by (simp add: table_inv_def client_invar_def g views)
  moreover have "locks_inv ?t" using locks g by (auto simp: locks_inv_def views)
  moreover have "calls_inv ?t" using calls g pc unfolding calls_inv_def fl views by auto
  ultimately show ?thesis using inv by (simp add: client_inv_def)
qed

lemma client_inv_unwritten:
  assumes inv: "client_inv s" and pc: "spc s c = Some (SWriting k)"
    and wr: "send_write cc (client s) c k = (cl', Some e)"
  shows "client_inv (s\<lparr>client := send_unregister cl' k e, spc := (spc s)(c \<mapsto> SReturned), reqMutex := None\<rparr>)"
    (is "client_inv ?t")
proof -
  note g = send_write_fields [OF wr] and u = send_unregister_fields [of cl' k e]
    and tab = client_invD(1) [OF inv] and calls = client_invD(2) [OF inv] and locks = client_invD(3) [OF inv]
  have w: "(c, k) \<in> writing s" "c \<in> started s" using pc by (auto simp: view_defs)
  have views: "started ?t = started s" "writing ?t = {}" "taken ?t = taken s"
    using w(2) started_upd(1) [of ?t s c SReturned] writing_upd(2) [of ?t s c] one_writer [OF locks w(1)]
    by (simp_all add: taken_def insert_absorb)
  have running: "rpc s \<noteq> RReturned" using locks w(1) by (auto simp: locks_inv_def)
  have inj: "inj_on (pending (client s)) (dom (pending (client s)))" using tab by (simp add: table_inv_def)
  have cinv: "client_invar (client s)" using tab by (simp add: table_inv_def)
  have pend: "pending (client ?t) = (pending (client s))(k := None)" by (simp add: u g)
  have "client_invar (client ?t)" using cinv by (auto simp: client_invar_def u g split: if_splits)
  then have tab': "table_inv ?t" if "ran (pending (client ?t)) \<inter> taken s = {}"
    using tab inj_on_delete [OF inj, of k] that by (simp add: table_inv_def pend views) (simp add: u g)
  have locks': "locks_inv ?t" using locks running by (auto simp: locks_inv_def views u g)
  consider "pending (client s) k = None" | "pending (client s) k = Some c"
    using locks w(1) by (auto simp: locks_inv_def)
  then show ?thesis
  proof cases
    case 1
    have p: "pending (client ?t) = pending (client s)" using 1 pend by (simp add: fun_upd_idem)
    have fl: "in_flight ?t = in_flight s" by (simp only: in_flight_def views p)
    have dl: "donelog (client ?t) = donelog (client s)" using 1 by (simp add: u g)
    have "calls_inv ?t" using calls w g u(6) pc unfolding calls_inv_def fl views dl by auto
    moreover have "table_inv ?t" using tab by (intro tab', unfold p) (simp add: table_inv_def)
    ultimately show ?thesis using locks' by (simp add: client_inv_def)
  next
    case 2
    have ran: "ran (pending (client ?t)) = ran (pending (client s)) - {c}"
      using ran_delete [OF inj 2] by (simp only: pend)
    have c: "c \<in> ran (pending (client s))" using 2 by (rule ranI)
    then have fl: "in_flight ?t = in_flight s - {c}"
      using tab unfolding in_flight_def views ran table_inv_def by auto
    have dl: "donelog (client ?t) = c # donelog (client s)" using 2 by (simp add: u g)
    have "c \<in> in_flight s" using c by (simp add: in_flight_def)
    then have "calls_inv ?t" using calls w g u(6) pc running unfolding calls_inv_def fl views dl by auto
    moreover have "table_inv ?t" using tab by (intro tab', unfold ran) (auto simp: table_inv_def)
    ultimately show ?thesis using locks' by (simp add: client_inv_def)
  qed
qed


lemma client_inv_header:
  assumes inv: "client_inv s" and pc: "rpc s = RHeader"
    and tk: "take_call ((client s)\<lparr>codec := c'\<rparr>) k = (co, cl')"
  shows "client_inv (s\<lparr>client := cl', rpc := RTaken resp co\<rparr>)" (is "client_inv ?t")
proof -
  note tab = client_invD(1) [OF inv] and calls = client_invD(2) [OF inv] and locks = client_invD(3) [OF inv]
  have co: "co = pending (client s) k" and pend: "pending cl' = (pending (client s))(k := None)"
    and same: "seq cl' = seq (client s)" "donelog cl' = donelog (client s)"
      "cl_plugins cl' = cl_plugins (client s)" "next_addr cl' = next_addr (client s)"
    using tk by (auto simp: take_call_def)
  have inj: "inj_on (pending (client s)) (dom (pending (client s)))" using tab by (simp add: table_inv_def)
  have idle: "taken s = {}" using pc by (simp add: taken_def)
  have views: "started ?t = started s" "writing ?t = writing s" "taken ?t = set_option co"
    by (simp_all add: started_def writing_def taken_def split: option.split)
  have ran: "ran (pending cl') = ran (pending (client s)) - set_option co"
  proof (cases co)
    case None
    then show ?thesis using co pend by (simp add: fun_upd_idem)
  next
    case (Some d)
    then show ?thesis using co pend ran_delete [OF inj, of k d] by simp
  qed
  have "set_option co \<subseteq> ran (pending (client s))" using co by (auto intro: ranI)
  then have fl: "in_flight ?t = in_flight s" unfolding in_flight_def views idle by (auto simp: ran)
  have "client_invar cl'" using tab by (auto simp: table_inv_def client_invar_def pend same)
  then have "table_inv ?t"
    using tab ran inj_on_delete [OF inj, of k] by (auto simp: table_inv_def views same pend)
  moreover have "calls_inv ?t" using calls pc unfolding calls_inv_def fl views by (simp add: same)
  moreover have "locks_inv ?t"
    using locks pc by (auto simp: locks_inv_def views same pend)
  ultimately show ?thesis by (simp add: client_inv_def)
qed

lemma client_inv_noheader:
  assumes inv: "client_inv s" and pc: "rpc s = RHeader"
  shows "client_inv (s\<lparr>client := (client s)\<lparr>codec := c'\<rparr>, rpc := RBroken e\<rparr>)" (is "client_inv ?t")
proof -
  have views: "started ?t = started s" "writing ?t = writing s" "taken ?t = taken s"
    using pc by (simp_all add: started_def writing_def taken_def)
  then have fl: "in_flight ?t = in_flight s" by (simp add: in_flight_def)
  show ?thesis using inv pc
    by (simp add: client_inv_def table_inv_def calls_inv_def locks_inv_def client_invar_def views fl)
qed

lemma client_inv_dispatch:
  assumes inv: "client_inv s" and pc: "rpc s = RTaken resp co"
    and dis: "receive_dispatch cc ord (client s) resp co = Returns (cl', e)"
  shows "client_inv (s\<lparr>client := cl', rpc := (case e of None \<Rightarrow> RHeader | Some er \<Rightarrow> RBroken er)\<rparr>)"
    (is "client_inv ?t")
proof -
  note tab = client_invD(1) [OF inv] and calls = client_invD(2) [OF inv] and locks = client_invD(3) [OF inv]
  have "plugins (cl_plugins (client s)) = Map.empty" using locks by (simp add: locks_inv_def)
  note g = receive_dispatch_fields [OF dis this]
  have run: "rpc ?t \<noteq> RReturned" by (simp split: option.split)
  have views: "started ?t = started s" "writing ?t = writing s" "taken ?t = {}" "taken s = set_option co"
    using pc by (simp_all add: started_def writing_def taken_def split: option.split)
  have disj: "ran (pending (client s)) \<inter> set_option co = {}"
    using tab views(4) by (simp add: table_inv_def)
  have fl: "in_flight ?t = in_flight s - set_option co"
    unfolding in_flight_def views using disj g by auto
  have dl: "set (donelog cl') = set (donelog (client s)) \<union> set_option co"
    using g by (cases co) auto
  have co: "set_option co \<subseteq> in_flight s" by (simp add: in_flight_def views)
  have "set (donelog (client s)) \<inter> set_option co = {}" using calls pc co by (auto simp: calls_inv_def)
  then have dist: "distinct (donelog cl')"
    using g calls by (cases co) (auto simp: calls_inv_def)
  have "table_inv ?t" using tab g by (simp add: table_inv_def client_invar_def views)
  moreover have "locks_inv ?t" using locks g run by (simp add: locks_inv_def views)
  moreover have "calls_inv ?t"
    using calls dist dl co g pc unfolding calls_inv_def fl views by auto
  ultimately show ?thesis by (simp add: client_inv_def)
qed

lemma client_inv_terminate:
  assumes inv: "client_inv s" and pc: "rpc s = RBroken e" and free: "reqMutex s = None"
    and ks: "range_order (pending (client s)) ks"
  shows "client_inv (s\<lparr>client := receive_terminate ks e (client s), rpc := RReturned\<rparr>)" (is "client_inv ?t")
proof -
  note tab = client_invD(1) [OF inv] and calls = client_invD(2) [OF inv] and locks = client_invD(3) [OF inv]
  note g = receive_terminate_fields [of ks e "client s"]
  have views: "started ?t = started s" "writing ?t = writing s" "taken ?t = {}" "taken s = {}"
    using pc by (simp_all add: started_def writing_def taken_def)
  have fl: "in_flight ?t = in_flight s" "in_flight s = ran (pending (client s))"
    by (simp_all add: in_flight_def views g)
  have nowriter: "writing s = {}" using locks_invD [OF locks] free by auto
  have vals: "set (range_values (pending (client s)) ks) = ran (pending (client s))"
    using ks by (rule set_range_values)
  have "distinct (range_values (pending (client s)) ks)"
    using tab ks by (intro distinct_range_values) (simp_all add: table_inv_def)
  then have dist: "distinct (donelog (client ?t))"
    using calls pc vals fl by (auto simp: g calls_inv_def)
  have "table_inv ?t" using tab by (simp add: table_inv_def client_invar_def g views)
  moreover have "locks_inv ?t" using locks vals nowriter by (auto simp: locks_inv_def g views)
  moreover have "calls_inv ?t"
    using calls dist vals fl(2) unfolding calls_inv_def fl(1) views by (auto simp: g)
  ultimately show ?thesis by (simp add: client_inv_def)
qed


lemma nreg_mono: "client_step s t \<Longrightarrow> nreg s \<le> nreg t"
  by (induction rule: client_step.induct) simp_all

lemma client_inv_step:
  assumes "client_step s t" "client_inv s" "nreg t < 2 ^ 64"
  shows "client_inv t"
  using assms
proof (induction rule: client_step.induct)
  case (make s n)
  then show ?case by (intro client_inv_frame [OF make(1)]) (simp_all add: make_chan_def Let_def)
next
  case (close cc s cl' e)
  from Client_Close_fields [OF close(1)] show ?case by (intro client_inv_frame [OF close(2)]) simp_all
next
  case (consume s ch c cs)
  then show ?case by (intro client_inv_frame [OF consume(2)]) simp_all
qed (simp_all add: client_inv_start client_inv_refuse client_inv_register client_inv_written
       client_inv_unwritten client_inv_header client_inv_noheader client_inv_dispatch client_inv_terminate)

lemma client_inv_reach: "client_reach s \<Longrightarrow> nreg s < 2 ^ 64 \<Longrightarrow> client_inv s"
proof (induction rule: client_reach.induct)
  case (init nocall cc w)
  show ?case by (rule client_inv_init)
next
  case (step s t)
  with nreg_mono [OF step(2)] show ?case by (auto intro: client_inv_step)
qed


section \<open>No call is lost, none completes twice\<close>

text \<open>
  C1. In every reachable state of the client, whatever the codec, the peer and the
  interleaving do, \<^verbatim>\<open>done()\<close> has been called at most once on each call, and the calls whose
  \<^verbatim>\<open>send\<close> has taken the lock are exactly those completed, those in the table of pending
  calls and the one the receiver is dispatching (fewer than \<open>2 ^ 64\<close> registrations).
\<close>

theorem calls_complete_once:
  assumes "client_reach s" "nreg s < 2 ^ 64"
  shows "distinct (donelog (client s))
    \<and> {c. \<exists>p. spc s c = Some p \<and> p \<noteq> SReady} =
        set (donelog (client s)) \<union> ran (pending (client s))
          \<union> (case rpc s of RTaken r (Some c) \<Rightarrow> {c} | _ \<Rightarrow> {})"
  using client_invD(2) [OF client_inv_reach [OF assms]]
  by (simp add: calls_inv_def started_def in_flight_def taken_def Un_assoc)

text \<open>
  C4. Once \<^verbatim>\<open>receive\<close> has returned, every call whose \<^verbatim>\<open>send\<close> returned has completed: no
  caller waits forever. The client is then shut down and no \<^verbatim>\<open>send\<close> is between its
  registration and its write, so nothing is registered any more.
\<close>

theorem receive_returned_all_done:
  assumes "client_reach s" "nreg s < 2 ^ 64" "rpc s = RReturned"
  shows "{c. spc s c = Some SReturned} \<subseteq> set (donelog (client s))
    \<and> shutdown (client s) \<and> (\<forall>c k. spc s c \<noteq> Some (SWriting k))"
proof -
  note inv = client_inv_reach [OF assms(1,2)]
  have "taken s = {}" using assms(3) by (simp add: taken_def)
  then have "started s \<subseteq> set (donelog (client s))"
    using client_invD(2,3) [OF inv] assms(3) by (auto simp: calls_inv_def locks_inv_def in_flight_def)
  moreover have "{c. spc s c = Some SReturned} \<subseteq> started s" by (auto simp: started_def)
  ultimately show ?thesis
    using client_invD(3) [OF inv] assms(3) by (auto simp: locks_inv_def writing_def)
qed

subsection \<open>A run: a call is written, its response arrives, the peer hangs up\<close>

text \<open>A codec that knows one response and then the end of the stream.\<close>

definition run_codec :: "(nat, nat) ClientCodec" where
  "run_codec = \<lparr>WriteRequest = (\<lambda>n r x. (n, None)),
     ReadResponseHeader = (\<lambda>n r. if n = 0 then (n, r, Some EOF) else (n - 1, r, None)),
     ReadResponseBody = (\<lambda>n x. Returns (n, map_option (\<lambda>_. 7) x, None)),
     CloseCodec = (\<lambda>n. (n, None))\<rparr>"

definition run_client :: "(nat, unit, nat) Client" where
  "run_client = NewClientWithCodec \<lparr>call_ServiceMethod = [], call_Args = 0, call_Reply = None, call_Error = None, call_Done = 0\<rparr> 1 ()"

definition run_go :: "(nat, unit, nat) csys" where
  "run_go = (let s = csys_init run_client in
     case Go_call (client s) ''a:b'' 5 (Some 0) None of
       Returns (c, cl') \<Rightarrow> s\<lparr>client := cl', spc := (spc s)(c \<mapsto> SReady)\<rparr> | _ \<Rightarrow> s)"

definition run_registered :: "(nat, unit, nat) csys" where
  "run_registered = run_go\<lparr>client := snd (send_register (client run_go) 0),
     spc := (spc run_go)(0 \<mapsto> SWriting 0), reqMutex := Some 0, nreg := Suc (nreg run_go)\<rparr>"

definition run_written :: "(nat, unit, nat) csys" where
  "run_written = run_registered\<lparr>client := fst (send_write run_codec (client run_registered) 0 0),
     spc := (spc run_registered)(0 \<mapsto> SReturned), reqMutex := None\<rparr>"

definition run_taken :: "(nat, unit, nat) csys" where
  "run_taken = run_written\<lparr>client := snd (take_call ((client run_written)\<lparr>codec := 0\<rparr>) 0),
     rpc := RTaken zero_RpcResponse (Some 0)\<rparr>"

definition run_answered :: "(nat, unit, nat) csys" where
  "run_answered = run_taken\<lparr>client := (case receive_dispatch run_codec ([], []) (client run_taken) zero_RpcResponse (Some 0) of
     Returns (cl', e) \<Rightarrow> cl' | _ \<Rightarrow> client run_taken), rpc := RHeader\<rparr>"

definition run_broken :: "(nat, unit, nat) csys" where
  "run_broken = run_answered\<lparr>client := (client run_answered)\<lparr>codec := 0\<rparr>, rpc := RBroken EOF\<rparr>"

definition run_returned :: "(nat, unit, nat) csys" where
  "run_returned = run_broken\<lparr>client := receive_terminate [] EOF (client run_broken), rpc := RReturned\<rparr>"

lemma run_go_eq: "\<exists>cl'. Go_call (client (csys_init run_client)) ''a:b'' 5 (Some 0) None = Returns (0, cl')
    \<and> run_go = (csys_init run_client)\<lparr>client := cl', spc := (spc (csys_init run_client))(0 \<mapsto> SReady)\<rparr>"
  by (simp add: run_go_def run_client_def csys_init_def NewClientWithCodec_def Go_call_def Let_def)

lemma run_reach_go: "client_reach run_go"
proof -
  obtain cl' where go: "Go_call (client (csys_init run_client)) ''a:b'' 5 (Some 0) None = Returns (0, cl')"
    and eq: "run_go = (csys_init run_client)\<lparr>client := cl', spc := (spc (csys_init run_client))(0 \<mapsto> SReady)\<rparr>"
    using run_go_eq by blast
  have "client_reach (csys_init run_client)" unfolding run_client_def by (rule client_reach.init)
  from client_reach.step [OF this client_step.start [OF go]] show ?thesis by (simp add: eq)
qed

lemmas run_defs = run_codec_def run_client_def run_go_def csys_init_def NewClientWithCodec_def
  Go_call_def zero_RpcResponse_def

lemma run_reach_registered: "client_reach run_registered"
proof -
  have "send_register (client run_go) 0 = (Some 0, snd (send_register (client run_go) 0))"
    by (simp add: send_register_def register_call_def run_defs)
  from client_reach.step [OF run_reach_go client_step.register [OF _ _ this]] show ?thesis
    by (simp add: run_registered_def) (simp add: run_defs)
qed

lemma run_reach_written: "client_reach run_written"
proof -
  have "send_write run_codec (client run_registered) 0 0 = (fst (send_write run_codec (client run_registered) 0 0), None)"
    by (simp add: send_write_def Let_def run_codec_def)
  from client_reach.step [OF run_reach_registered client_step.written [OF _ this]] show ?thesis
    by (simp add: run_written_def) (simp add: run_registered_def)
qed


lemma run_client_fields:
  "codec (client run_written) = 1" "pending (client run_written) = [0 \<mapsto> 0]"
  "rpc run_written = RHeader" "nreg run_written = 1" "reqMutex run_written = None"
  "spc run_written = [0 \<mapsto> SReturned]" "plugins (cl_plugins (client run_written)) = Map.empty"
  "donelog (client run_written) = []"
  by (simp_all add: run_written_def run_registered_def send_write_def send_register_def register_call_def
      newClientPluginManager_def Let_def run_defs)

lemma run_reach_taken: "client_reach run_taken"
proof -
  have rd: "ReadResponseHeader run_codec (codec (client run_written)) zero_RpcResponse = (0, zero_RpcResponse, None)"
    by (simp add: run_client_fields) (simp add: run_codec_def)
  have tk: "take_call ((client run_written)\<lparr>codec := 0\<rparr>) (resp_Seq zero_RpcResponse)
      = (Some 0, snd (take_call ((client run_written)\<lparr>codec := 0\<rparr>) 0))"
    by (simp add: take_call_def run_client_fields zero_RpcResponse_def)
  from client_reach.step [OF run_reach_written client_step.header [OF run_client_fields(3) rd tk]]
  show ?thesis by (simp add: run_taken_def)
qed

lemma run_dispatch:
  "\<exists>cl'. receive_dispatch run_codec ([], []) (client run_taken) zero_RpcResponse (Some 0) = Returns (cl', None)
     \<and> codec cl' = 0 \<and> pending cl' = Map.empty"
  by (simp add: receive_dispatch_def cpm_pre_read.no_plugins run_taken_def take_call_def run_client_fields
      receive_reply_def cpm_post_read.no_plugins run_codec_def zero_RpcResponse_def wrap_error_def Let_def)

lemma run_answered_fields:
  "codec (client run_answered) = 0" "pending (client run_answered) = Map.empty"
  "rpc run_answered = RHeader" "reqMutex run_answered = None" "nreg run_answered = 1"
  "spc run_answered = [0 \<mapsto> SReturned]"
  using run_dispatch by (auto simp: run_answered_def run_taken_def run_client_fields)

lemma run_reach_answered: "client_reach run_answered"
proof -
  obtain cl' where d: "receive_dispatch run_codec ([], []) (client run_taken) zero_RpcResponse (Some 0) = Returns (cl', None)"
    using run_dispatch by blast
  have pc: "rpc run_taken = RTaken zero_RpcResponse (Some 0)" by (simp add: run_taken_def)
  from client_reach.step [OF run_reach_taken client_step.dispatch [OF pc d]] show ?thesis
    by (simp add: run_answered_def d)
qed

lemma run_reach_returned: "client_reach run_returned"
proof -
  have "ReadResponseHeader run_codec (codec (client run_answered)) zero_RpcResponse = (0, zero_RpcResponse, Some EOF)"
    by (simp add: run_answered_fields) (simp add: run_codec_def)
  from client_reach.step [OF run_reach_answered client_step.noheader [OF run_answered_fields(3) this]]
  have broken: "client_reach run_broken" by (simp add: run_broken_def)
  have pc: "rpc run_broken = RBroken EOF" "reqMutex run_broken = None"
    "range_order (pending (client run_broken)) []"
    by (simp_all add: run_broken_def run_answered_fields)
  from client_reach.step [OF broken client_step.terminate [OF pc]] show ?thesis
    by (simp add: run_returned_def)
qed

lemma run_returned_fields:
  "nreg run_returned = 1" "rpc run_returned = RReturned" "spc run_returned = [0 \<mapsto> SReturned]"
  by (simp_all add: run_returned_def run_broken_def run_answered_fields)

text \<open>The two theorems on this run.\<close>

theorem calls_complete_once_witness:
  "distinct (donelog (client run_taken)) \<and> 0 \<notin> set (donelog (client run_taken))
   \<and> {c. \<exists>p. spc run_taken c = Some p \<and> p \<noteq> SReady} = {0}"
proof -
  have "nreg run_taken = 1" by (simp add: run_taken_def run_client_fields)
  then have room: "nreg run_taken < 2 ^ 64" by simp
  have "rpc run_taken = RTaken zero_RpcResponse (Some 0)" "pending (client run_taken) = Map.empty"
    "donelog (client run_taken) = []"
    by (simp_all add: run_taken_def take_call_def run_client_fields)
  then show ?thesis using calls_complete_once [OF run_reach_taken room] by simp
qed

theorem receive_returned_all_done_witness:
  "rpc run_returned = RReturned \<and> 0 \<in> set (donelog (client run_returned)) \<and> shutdown (client run_returned)"
proof -
  have room: "nreg run_returned < 2 ^ 64" by (simp add: run_returned_fields)
  from receive_returned_all_done [OF run_reach_returned room run_returned_fields(2)]
  show ?thesis by (auto simp: run_returned_fields)
qed

end
