(* ===== verification/ServerSystem.thy ===== *)
theory ServerSystem
  imports RpcServer "HOL-Library.Multiset"
begin

text \<open>
  The server under concurrency: the accept loop, one goroutine per connection
  (\<^verbatim>\<open>handleConn\<close>, \<^verbatim>\<open>serveCodec\<close>) and one per request (\<^verbatim>\<open>Service.call\<close>), all on one server
  with its shared pools of headers. The codecs, the peers, the methods and the scheduling
  are arbitrary. A step takes or gives back what the mutexes guard; reading a request is one
  step, since between taking its header from the pool and handing it to a job it touches
  only the connection's own codec, which no one else reads.
\<close>

section \<open>States and steps\<close>

text \<open>
  A job answers one request: a goroutine in \<^verbatim>\<open>Service.call\<close>, or the connection's own
  goroutine answering an invalid request. Its state says what it does next: count the call,
  run the method, take a response header, write the response, give the response header
  back, give the request header back.
\<close>

datatype 'v job_pc =
    JCall method_ref 'v 'v
  | JInvoke method_ref 'v 'v
  | JSend string "'v option"
  | JWrite ptr "'v option"
  | JFree ptr
  | JDone

record 'v job =
  j_conn :: conn
  j_req :: ptr
  j_pc :: "'v job_pc"

text \<open>
  Where the connection's goroutine is: reading, answering an invalid request itself (the job
  \<open>Busy\<close> names), waiting for the calls, out of \<^verbatim>\<open>serveCodec\<close>, or gone.
\<close>

datatype reader_pc = Reading | Busy nat | Waiting | Served | Ended

text \<open>
  The codec of a connection keeps a log: \<open>logged cc\<close> is the codec \<open>cc\<close> with, beside its state,
  the headers and bodies its \<^verbatim>\<open>WriteResponse\<close> was called with. The log is written by that call
  alone, whoever makes it.
\<close>

type_synonym 'v wire_log = "(RpcResponse \<times> 'v option) list"

definition logged :: "('c, 'v) ServerCodec \<Rightarrow> ('c \<times> 'v wire_log, 'v) ServerCodec" where
  "logged cc =
     \<lparr>ReadRequestHeader = (\<lambda>c r. let (c', r', e) = ReadRequestHeader cc (fst c) r in ((c', snd c), r', e)),
      ReadRequestBody = (\<lambda>c x. let (c', y, e) = ReadRequestBody cc (fst c) x in ((c', snd c), y, e)),
      WriteResponse = (\<lambda>c h x. let (c', e) = WriteResponse cc (fst c) h x in ((c', snd c @ [(h, x)]), e)),
      CloseServerCodec = (\<lambda>c. let (c', e) = CloseServerCodec cc (fst c) in ((c', snd c), e))\<rparr>"

record ('c, 'v) conn_state =
  reader :: reader_pc
  scodec :: "'c \<times> 'v wire_log"
  wg :: nat

text \<open>
  \<open>requests\<close> and \<open>answers\<close> are history variables: the requests read, with their connection
  and header, the position being the number of the job; and the calls of \<^verbatim>\<open>WriteResponse\<close>,
  with the number and the connection of the job that made them, taken from the codec's log.
\<close>

record ('c, 'w, 'v) ssys =
  sv :: "('w, 'v) Server"
  conns :: "conn \<rightharpoonup> ('c, 'v) conn_state"
  jobs :: "nat \<rightharpoonup> 'v job"
  requests :: "(conn \<times> RpcRequest) list"
  answers :: "(nat \<times> conn \<times> RpcResponse \<times> 'v option) list"

definition ssys_init :: "('w, 'v) Server \<Rightarrow> ('c, 'w, 'v) ssys" where
  "ssys_init server = \<lparr>sv = server, conns = Map.empty, jobs = Map.empty, requests = [], answers = []\<rparr>"

definition set_reader :: "('c, 'w, 'v) ssys \<Rightarrow> conn \<Rightarrow> reader_pc \<Rightarrow> ('c, 'w, 'v) ssys" where
  "set_reader s c p = s\<lparr>conns := (conns s)(c := map_option (\<lambda>k. k\<lparr>reader := p\<rparr>) (conns s c))\<rparr>"

definition set_codec :: "('c, 'w, 'v) ssys \<Rightarrow> conn \<Rightarrow> 'c \<times> 'v wire_log \<Rightarrow> ('c, 'w, 'v) ssys" where
  "set_codec s c cd = s\<lparr>conns := (conns s)(c := map_option (\<lambda>k. k\<lparr>scodec := cd\<rparr>) (conns s c))\<rparr>"

definition set_pc :: "('c, 'w, 'v) ssys \<Rightarrow> nat \<Rightarrow> 'v job_pc \<Rightarrow> ('c, 'w, 'v) ssys" where
  "set_pc s i p = s\<lparr>jobs := (jobs s)(i := map_option (\<lambda>j. j\<lparr>j_pc := p\<rparr>) (jobs s i))\<rparr>"

text \<open>A request was read: it gets the next number and a job.\<close>

definition new_job :: "('c, 'w, 'v) ssys \<Rightarrow> conn \<Rightarrow> ptr \<Rightarrow> 'v job_pc \<Rightarrow> ('c, 'w, 'v) ssys" where
  "new_job s c q p =
     s\<lparr>jobs := (jobs s)(length (requests s) \<mapsto> \<lparr>j_conn = c, j_req = q, j_pc = p\<rparr>),
       requests := requests s @ [(c, reqHeap (reqs (sv s)) q)]\<rparr>"

text \<open>The end of a job: the reader goes on if it was its own, otherwise \<^verbatim>\<open>wg.Done\<close>.\<close>

definition end_job :: "('c, 'w, 'v) ssys \<Rightarrow> nat \<Rightarrow> conn \<Rightarrow> ('c, 'w, 'v) ssys" where
  "end_job s i c =
     s\<lparr>jobs := (jobs s)(i := None),
       conns := (conns s)(c := map_option
         (\<lambda>k. if reader k = Busy i then k\<lparr>reader := Reading\<rparr> else k\<lparr>wg := wg k - 1\<rparr>) (conns s c))\<rparr>"

definition add_wg :: "('c, 'w, 'v) ssys \<Rightarrow> conn \<Rightarrow> ('c, 'w, 'v) ssys" where
  "add_wg s c = s\<lparr>conns := (conns s)(c := map_option (\<lambda>k. k\<lparr>wg := Suc (wg k)\<rparr>) (conns s c))\<rparr>"

inductive server_step :: "('c, 'w, 'v) ssys \<Rightarrow> ('c, 'w, 'v) ssys \<Rightarrow> bool" where
  register: "register upper ord (sv s) r alias useAlias = Returns (sv', e) \<Longrightarrow>
    server_step s (s\<lparr>sv := sv'\<rparr>)"
| no_accept: "accept_iter ord (sv s) stop accepted = Returns (sv', None) \<Longrightarrow>
    server_step s (s\<lparr>sv := sv'\<rparr>)"
| accept: "accept_iter ord (sv s) stop (Inr c0) = Returns (sv', Some c) \<Longrightarrow> conns s c = None \<Longrightarrow>
    server_step s (s\<lparr>sv := sv', conns := (conns s)(c \<mapsto>
      \<lparr>reader = (if codec_of_type (cfg_CodecType (serverConfig sv')) = None then Served else Reading),
       scodec = (cd, []), wg = 0\<rparr>)\<rparr>)"
| read_end: "conns s c = Some k \<Longrightarrow> reader k = Reading \<Longrightarrow>
    readRequest (logged cc) rf ord (sv s) (scodec k) = Returns (sv', cd, r) \<Longrightarrow> rr_err r \<noteq> None \<Longrightarrow> \<not> rr_keepReading r \<Longrightarrow>
    server_step s (set_reader (set_codec (s\<lparr>sv := sv'\<rparr>) c cd) c Waiting)"
| read_skip: "conns s c = Some k \<Longrightarrow> reader k = Reading \<Longrightarrow>
    readRequest (logged cc) rf ord (sv s) (scodec k) = Returns (sv', cd, r) \<Longrightarrow> rr_err r \<noteq> None \<Longrightarrow> rr_keepReading r \<Longrightarrow>
    rr_req r = None \<Longrightarrow> server_step s (set_codec (s\<lparr>sv := sv'\<rparr>) c cd)"
| read_bad: "conns s c = Some k \<Longrightarrow> reader k = Reading \<Longrightarrow>
    readRequest (logged cc) rf ord (sv s) (scodec k) = Returns (sv', cd, r) \<Longrightarrow> rr_err r = Some e \<Longrightarrow> rr_keepReading r \<Longrightarrow>
    rr_req r = Some q \<Longrightarrow>
    server_step s (new_job (set_reader (set_codec (s\<lparr>sv := sv'\<rparr>) c cd) c (Busy (length (requests s)))) c q
      (JSend (error_text e) None))"
| read_ok: "conns s c = Some k \<Longrightarrow> reader k = Reading \<Longrightarrow>
    readRequest (logged cc) rf ord (sv s) (scodec k) = Returns (sv', cd, r) \<Longrightarrow> rr_err r = None \<Longrightarrow>
    rr_method r = Some ref \<Longrightarrow> rr_req r = Some q \<Longrightarrow> rr_argv r = Some a \<Longrightarrow> rr_replyVal r = Some v \<Longrightarrow>
    server_step s (new_job (add_wg (set_codec (s\<lparr>sv := sv'\<rparr>) c cd) c) c q (JCall ref a v))"
| count: "jobs s i = Some j \<Longrightarrow> j_pc j = JCall ref a v \<Longrightarrow>
    server_step s (set_pc (s\<lparr>sv := count_call (sv s) ref\<rparr>) i (JInvoke ref a v))"
| invoke: "jobs s i = Some j \<Longrightarrow> j_pc j = JInvoke ref a v \<Longrightarrow>
    invoke_method fn (sv s) ref a v = Returns (reply, msg) \<Longrightarrow>
    server_step s (set_pc s i (JSend msg (Some reply)))"
| header: "jobs s i = Some j \<Longrightarrow> j_pc j = JSend msg reply \<Longrightarrow>
    sendResponse_header (sv s) (j_req j) reply msg = (resp, reply', sv') \<Longrightarrow>
    server_step s (set_pc (s\<lparr>sv := sv'\<rparr>) i (JWrite resp reply'))"
| put_wire: "jobs s i = Some j \<Longrightarrow> j_pc j = JWrite resp reply \<Longrightarrow> conns s (j_conn j) = Some k \<Longrightarrow>
    sendResponse_write (logged cc) ord (sv s) (scodec k) resp reply = Returns (sv', cd) \<Longrightarrow>
    server_step s (set_pc (set_codec (s\<lparr>sv := sv', answers := answers s
      @ map (Pair i \<circ> Pair (j_conn j)) (drop (length (snd (scodec k))) (snd cd))\<rparr>) (j_conn j) cd) i (JFree resp))"
| free: "jobs s i = Some j \<Longrightarrow> j_pc j = JFree resp \<Longrightarrow>
    server_step s (set_pc (s\<lparr>sv := sendResponse_free (sv s) resp\<rparr>) i JDone)"
| finish: "jobs s i = Some j \<Longrightarrow> j_pc j = JDone \<Longrightarrow>
    server_step s (end_job (s\<lparr>sv := server_freeRequest (sv s) (j_req j)\<rparr>) i (j_conn j))"
| close: "conns s c = Some k \<Longrightarrow> reader k = Waiting \<Longrightarrow> wg k = 0 \<Longrightarrow>
    CloseServerCodec (logged (cc :: ('c, 'v) ServerCodec)) (scodec k) = (cd, e) \<Longrightarrow>
    server_step s (set_reader (set_codec s c cd) c Served)"
| leave: "conns s c = Some k \<Longrightarrow> reader k = Served \<Longrightarrow> handleConn_end ord (sv s) c = Returns sv' \<Longrightarrow>
    server_step s (set_reader (s\<lparr>sv := sv'\<rparr>) c Ended)"

inductive server_reach :: "('c, 'w, 'v) ssys \<Rightarrow> bool" where
  init: "newRpcServerWithOptions listen w conf = Returns server \<Longrightarrow> server_Start server = Returns server' \<Longrightarrow>
    server_reach (ssys_init server')"
| step: "server_reach s \<Longrightarrow> server_step s t \<Longrightarrow> server_reach t"

section \<open>What the sections change\<close>

definition no_plugins :: "('w, 'v) Server \<Rightarrow> bool" where
  "no_plugins server \<longleftrightarrow> plugins (sv_plugins server) = Map.empty"

lemma storeRequest_twice [simp]: "storeRequest (storeRequest p q h) q h' = storeRequest p q h'"
  by (simp add: storeRequest_def)

lemma readRequestHeader_effect:
  assumes "readRequestHeader cc ord server c = Returns (server', c', h)" "no_plugins server"
    and "getRequest (reqs server) = (q, p)"
  shows "(\<exists>hdr. reqs server' = storeRequest p q hdr) \<and> resps server' = resps server
    \<and> sv_plugins server' = sv_plugins server \<and> (hr_keepReading h \<longrightarrow> hr_req h = Some q)
    \<and> (hr_err h = None \<longrightarrow> hr_req h = Some q)"
  using assms
  by (auto simp: readRequestHeader_def no_plugins_def spm_pre_read.no_plugins Let_def
      split: prod.splits option.splits sum.splits)

lemma readRequest_effect:
  assumes "readRequest cc rf ord server c = Returns (server', c', r)" "no_plugins server"
    and "getRequest (reqs server) = (q, p)"
  shows "(\<exists>hdr. reqs server' = storeRequest p q hdr) \<and> resps server' = resps server
    \<and> sv_plugins server' = sv_plugins server \<and> (rr_keepReading r \<or> rr_err r = None \<longrightarrow> rr_req r = Some q)"
proof -
  obtain s1 c1 h where hd: "readRequestHeader cc (fst ord) server c = Returns (s1, c1, h)"
    using assms(1) by (auto simp: readRequest_def split: outcome.splits)
  note e = readRequestHeader_effect [OF hd assms(2,3)]
  have "no_plugins s1" using e assms(2) by (simp add: no_plugins_def)
  then show ?thesis using assms(1) hd e
    by (auto simp: readRequest_def no_plugins_def spm_post_read.no_plugins Let_def
        split: if_splits option.splits prod.splits)
qed

text \<open>Only \<^verbatim>\<open>sendResponse\<close> writes to the wire, one response with the header and the body it has.\<close>

lemma readRequest_log:
  assumes "readRequest (logged cc) rf ord server c = Returns (server', c', r)"
  shows "snd c' = snd c"
proof -
  obtain s1 c1 h where hd: "readRequestHeader (logged cc) (fst ord) server c = Returns (s1, c1, h)"
    using assms by (auto simp: readRequest_def split: outcome.splits)
  have "snd c1 = snd c"
    using hd by (auto simp: readRequestHeader_def logged_def Let_def split: prod.splits option.splits sum.splits outcome.splits)
  moreover have "snd (fst (ReadRequestBody (logged cc) c1 x)) = snd c1" for x
    by (simp add: logged_def case_prod_beta)
  ultimately show ?thesis using assms hd
    by (auto simp: readRequest_def Let_def split: if_splits option.splits prod.splits outcome.splits) (metis fst_conv)+
qed

lemma close_log: "CloseServerCodec (logged cc) c = (c', e) \<Longrightarrow> snd c' = snd c"
  by (auto simp: logged_def split: prod.splits)

lemma sendResponse_write_log:
  assumes "sendResponse_write (logged cc) ord server c resp reply = Returns (server', c')" "no_plugins server"
  shows "snd c' = snd c @ [(respHeap (resps server) resp, reply)]"
  using assms
  by (auto simp: sendResponse_write_def no_plugins_def spm_pre_write.no_plugins spm_post_write.no_plugins logged_def Let_def
      storeResponse_def split: prod.splits)

lemma sendResponse_header_effect:
  assumes "sendResponse_header server req reply msg = (resp, reply', server')"
    and "getResponse (resps server) = (q, p)"
  shows "resp = q \<and> reqs server' = reqs server \<and> sv_plugins server' = sv_plugins server
    \<and> (\<exists>h. resps server' = storeResponse p q h
        \<and> resp_Seq h = req_Seq (reqHeap (reqs server) req)
        \<and> resp_ServiceMethod h = req_ServiceMethod (reqHeap (reqs server) req))"
  using assms by (auto simp: sendResponse_header_def Let_def)

lemma sendResponse_write_effect:
  assumes "sendResponse_write cc ord server c resp reply = Returns (server', c')" "no_plugins server"
  shows "reqs server' = reqs server \<and> sv_plugins server' = sv_plugins server
    \<and> (\<exists>h. resps server' = storeResponse (resps server) resp h)"
  using assms
  by (auto simp: sendResponse_write_def no_plugins_def spm_pre_write.no_plugins spm_post_write.no_plugins Let_def)

lemma register_effect:
  assumes "register upper ord server r alias useAlias = Returns (server', e)"
  shows "reqs server' = reqs server \<and> resps server' = resps server \<and> sv_plugins server' = sv_plugins server"
  using assms
  by (auto simp: register_def Let_def split: outcome.splits if_splits sum.splits option.splits)

lemma onStop_effect:
  assumes "onStop server = Returns server'"
  shows "reqs server' = reqs server \<and> resps server' = resps server \<and> sv_plugins server' = sv_plugins server
    \<and> activeConn server' = activeConn server \<and> serveWG server' = serveWG server"
  using assms by (auto simp: onStop_def split: if_splits)

lemma accept_effect:
  assumes "accept_iter ord server stop accepted = Returns (server', co)"
  shows "reqs server' = reqs server \<and> resps server' = resps server \<and> sv_plugins server' = sv_plugins server"
  using assms
  by (auto simp: accept_iter_def Let_def dest!: onStop_effect split: outcome.splits if_splits sum.splits option.splits)

lemma handleConn_end_effect:
  assumes "handleConn_end ord server c = Returns server'"
  shows "reqs server' = reqs server \<and> resps server' = resps server \<and> sv_plugins server' = sv_plugins server"
  using assms by (auto simp: handleConn_end_def Let_def split: outcome.splits)

lemma count_call_effect [simp]:
  "reqs (count_call server ref) = reqs server" "resps (count_call server ref) = resps server"
  "sv_plugins (count_call server ref) = sv_plugins server"
  by (simp_all add: count_call_def split: option.splits)

lemma free_effect [simp]:
  "reqs (sendResponse_free server resp) = reqs server"
  "resps (sendResponse_free server resp) = freeResponse (resps server) resp"
  "sv_plugins (sendResponse_free server resp) = sv_plugins server"
  "reqs (server_freeRequest server req) = freeRequest (reqs server) req"
  "resps (server_freeRequest server req) = resps server"
  "sv_plugins (server_freeRequest server req) = sv_plugins server"
  by (simp_all add: sendResponse_free_def server_freeRequest_def)

section \<open>The invariant\<close>

text \<open>The headers the jobs hold, and whether a job has written its response.\<close>

fun resp_of :: "'v job_pc \<Rightarrow> ptr option" where
  "resp_of (JWrite r x) = Some r"
| "resp_of (JFree r) = Some r"
| "resp_of _ = None"

fun answered :: "'v job_pc \<Rightarrow> bool" where
  "answered (JFree r) = True"
| "answered JDone = True"
| "answered _ = False"

definition own_req :: "(nat \<rightharpoonup> 'v job) \<Rightarrow> nat \<rightharpoonup> ptr" where
  "own_req J i = map_option j_req (J i)"

definition own_resp :: "(nat \<rightharpoonup> 'v job) \<Rightarrow> nat \<rightharpoonup> ptr" where
  "own_resp J i = (case J i of None \<Rightarrow> None | Some j \<Rightarrow> resp_of (j_pc j))"

definition pools_inv :: "('c, 'w, 'v) ssys \<Rightarrow> bool" where
  "pools_inv s \<longleftrightarrow> no_plugins (sv s) \<and> rq.pool_owned (reqs (sv s)) (own_req (jobs s))
     \<and> rp.pool_owned (resps (sv s)) (own_resp (jobs s))"

text \<open>A response header answers a request header: the same sequence number and the same method.\<close>

definition reply_to :: "RpcRequest \<Rightarrow> RpcResponse \<Rightarrow> bool" where
  "reply_to q h \<longleftrightarrow> resp_Seq h = req_Seq q \<and> resp_ServiceMethod h = req_ServiceMethod q"

definition job_ok :: "('w, 'v) Server \<Rightarrow> (conn \<times> RpcRequest) list \<Rightarrow> nat \<Rightarrow> 'v job \<Rightarrow> bool" where
  "job_ok server rqs i j \<longleftrightarrow> i < length rqs \<and> rqs ! i = (j_conn j, reqHeap (reqs server) (j_req j))
     \<and> (\<forall>r x. j_pc j = JWrite r x \<longrightarrow> reply_to (snd (rqs ! i)) (respHeap (resps server) r))"

definition headers_inv :: "('c, 'w, 'v) ssys \<Rightarrow> bool" where
  "headers_inv s \<longleftrightarrow> (\<forall>i j. jobs s i = Some j \<longrightarrow> job_ok (sv s) (requests s) i j)"

definition unanswered :: "(nat \<rightharpoonup> 'v job) \<Rightarrow> nat set" where
  "unanswered J = {i. \<exists>j. J i = Some j \<and> \<not> answered (j_pc j)}"

definition answers_inv :: "('c, 'w, 'v) ssys \<Rightarrow> bool" where
  "answers_inv s \<longleftrightarrow>
     distinct (map fst (answers s))
     \<and> fst ` set (answers s) = {..<length (requests s)} - unanswered (jobs s)
     \<and> (\<forall>(i, c, h, x) \<in> set (answers s). fst (requests s ! i) = c \<and> reply_to (snd (requests s ! i)) h)"

text \<open>
  The connection of each job; the jobs of a connection that its wait group counts; what the
  invariant reads of a connection.
\<close>

definition job_conn :: "(nat \<rightharpoonup> 'v job) \<Rightarrow> nat \<rightharpoonup> conn" where
  "job_conn J i = map_option j_conn (J i)"

definition counted :: "(nat \<rightharpoonup> conn) \<Rightarrow> conn \<Rightarrow> reader_pc \<Rightarrow> nat set" where
  "counted K c p = {i. K i = Some c \<and> p \<noteq> Busy i}"

definition conn_view :: "(conn \<rightharpoonup> ('c, 'v) conn_state) \<Rightarrow> conn \<rightharpoonup> reader_pc \<times> nat" where
  "conn_view C c = map_option (\<lambda>k. (reader k, wg k)) (C c)"

definition conn_ok :: "(nat \<rightharpoonup> conn) \<Rightarrow> conn \<Rightarrow> reader_pc \<times> nat \<Rightarrow> bool" where
  "conn_ok K c pn \<longleftrightarrow> snd pn = card (counted K c (fst pn)) \<and> (\<forall>i. fst pn = Busy i \<longrightarrow> K i = Some c)
     \<and> (fst pn \<in> {Served, Ended} \<longrightarrow> counted K c (fst pn) = {})"

definition conns_ok :: "(nat \<rightharpoonup> conn) \<Rightarrow> (conn \<rightharpoonup> reader_pc \<times> nat) \<Rightarrow> bool" where
  "conns_ok K V \<longleftrightarrow> finite (dom K) \<and> ran K \<subseteq> dom V \<and> (\<forall>c pn. V c = Some pn \<longrightarrow> conn_ok K c pn)"

definition conns_inv :: "('c, 'w, 'v) ssys \<Rightarrow> bool" where
  "conns_inv s \<longleftrightarrow> conns_ok (job_conn (jobs s)) (conn_view (conns s))"

text \<open>What \<^verbatim>\<open>WriteResponse\<close> was called with on a connection: the answers of its jobs, in order.\<close>

definition wire :: "(conn \<rightharpoonup> ('c, 'v) conn_state) \<Rightarrow> conn \<Rightarrow> 'v wire_log" where
  "wire C c = (case C c of None \<Rightarrow> [] | Some k \<Rightarrow> snd (scodec k))"

definition answers_on :: "(nat \<times> conn \<times> RpcResponse \<times> 'v option) list \<Rightarrow> conn \<Rightarrow> 'v wire_log" where
  "answers_on A c = map (snd \<circ> snd) (filter (\<lambda>a. fst (snd a) = c) A)"

definition wire_inv :: "('c, 'w, 'v) ssys \<Rightarrow> bool" where
  "wire_inv s \<longleftrightarrow> wire (conns s) = answers_on (answers s)"

definition server_inv :: "('c, 'w, 'v) ssys \<Rightarrow> bool" where
  "server_inv s \<longleftrightarrow> pools_inv s \<and> headers_inv s \<and> answers_inv s \<and> conns_inv s \<and> wire_inv s"

subsection \<open>Fields of the updates\<close>

lemma set_reader_fields [simp]:
  "sv (set_reader s c p) = sv s" "jobs (set_reader s c p) = jobs s" "requests (set_reader s c p) = requests s"
  "answers (set_reader s c p) = answers s"
  "conns (set_reader s c p) = (conns s)(c := map_option (\<lambda>k. k\<lparr>reader := p\<rparr>) (conns s c))"
  by (simp_all add: set_reader_def)

lemma set_codec_fields [simp]:
  "sv (set_codec s c cd) = sv s" "jobs (set_codec s c cd) = jobs s" "requests (set_codec s c cd) = requests s"
  "answers (set_codec s c cd) = answers s"
  "conns (set_codec s c cd) = (conns s)(c := map_option (\<lambda>k. k\<lparr>scodec := cd\<rparr>) (conns s c))"
  by (simp_all add: set_codec_def)

lemma add_wg_fields [simp]:
  "sv (add_wg s c) = sv s" "jobs (add_wg s c) = jobs s" "requests (add_wg s c) = requests s"
  "answers (add_wg s c) = answers s"
  "conns (add_wg s c) = (conns s)(c := map_option (\<lambda>k. k\<lparr>wg := Suc (wg k)\<rparr>) (conns s c))"
  by (simp_all add: add_wg_def)

lemma set_pc_fields [simp]:
  "sv (set_pc s i p) = sv s" "conns (set_pc s i p) = conns s" "requests (set_pc s i p) = requests s"
  "answers (set_pc s i p) = answers s"
  "jobs (set_pc s i p) = (jobs s)(i := map_option (\<lambda>j. j\<lparr>j_pc := p\<rparr>) (jobs s i))"
  by (simp_all add: set_pc_def)

lemma new_job_fields [simp]:
  "sv (new_job s c q p) = sv s" "conns (new_job s c q p) = conns s" "answers (new_job s c q p) = answers s"
  "requests (new_job s c q p) = requests s @ [(c, reqHeap (reqs (sv s)) q)]"
  "jobs (new_job s c q p) = (jobs s)(length (requests s) \<mapsto> \<lparr>j_conn = c, j_req = q, j_pc = p\<rparr>)"
  by (simp_all add: new_job_def)

lemma end_job_fields [simp]:
  "sv (end_job s i c) = sv s" "requests (end_job s i c) = requests s" "answers (end_job s i c) = answers s"
  "jobs (end_job s i c) = (jobs s)(i := None)"
  "conns (end_job s i c) = (conns s)(c := map_option
     (\<lambda>k. if reader k = Busy i then k\<lparr>reader := Reading\<rparr> else k\<lparr>wg := wg k - 1\<rparr>) (conns s c))"
  by (simp_all add: end_job_def)

lemma own_upd [simp]:
  "own_req (J(i := None)) = (own_req J)(i := None)" "own_req (J(i \<mapsto> j)) = (own_req J)(i \<mapsto> j_req j)"
  "own_resp (J(i := None)) = (own_resp J)(i := None)" "own_resp (J(i \<mapsto> j)) = (own_resp J)(i := resp_of (j_pc j))"
  by (auto simp: own_req_def own_resp_def fun_eq_iff)

lemma own_job: "J i = Some j \<Longrightarrow> own_req J i = Some (j_req j)" "J i = Some j \<Longrightarrow> own_resp J i = resp_of (j_pc j)"
  by (simp_all add: own_req_def own_resp_def)

lemma own_none: "J i = None \<Longrightarrow> own_req J i = None" "J i = None \<Longrightarrow> own_resp J i = None"
  by (simp_all add: own_req_def own_resp_def)

lemma own_idem: "J i = Some j \<Longrightarrow> (own_req J)(i \<mapsto> j_req j) = own_req J"
  "J i = Some j \<Longrightarrow> (own_resp J)(i := resp_of (j_pc j)) = own_resp J"
  "J i = None \<Longrightarrow> (own_resp J)(i := None) = own_resp J"
  by (simp_all add: own_job own_none fun_upd_idem)

lemma headers_fresh: "headers_inv s \<Longrightarrow> jobs s (length (requests s)) = None"
  unfolding headers_inv_def job_ok_def by (metis less_irrefl not_None_eq)

subsection \<open>Pools\<close>

lemma read_pools:
  assumes rd: "readRequest cc rf ord (sv s) c = Returns (sv', cd, r)" and inv: "pools_inv s"
  shows "no_plugins sv' \<and> resps sv' = resps (sv s)
    \<and> rq.pool_owned (reqs sv') (own_req (jobs s))
    \<and> (\<forall>q \<in> ran (own_req (jobs s)). reqHeap (reqs sv') q = reqHeap (reqs (sv s)) q)
    \<and> (jobs s i = None \<longrightarrow> rr_req r = Some q \<longrightarrow> rr_keepReading r \<or> rr_err r = None
         \<longrightarrow> rq.pool_owned (reqs sv') ((own_req (jobs s))(i \<mapsto> q)))"
proof -
  obtain q0 p where g: "getRequest (reqs (sv s)) = (q0, p)" by fastforce
  have np: "no_plugins (sv s)" and own: "rq.pool_owned (reqs (sv s)) (own_req (jobs s))"
    using inv by (simp_all add: pools_inv_def)
  obtain hdr where e: "reqs sv' = storeRequest p q0 hdr" "resps sv' = resps (sv s)"
      "sv_plugins sv' = sv_plugins (sv s)" "rr_keepReading r \<or> rr_err r = None \<longrightarrow> rr_req r = Some q0"
    using readRequest_effect [OF rd np g] by (elim conjE exE) (rule that; assumption)
  note og = rq.owned_get [OF own g, of hdr i]
  have "no_plugins sv'" using np e(3) by (simp add: no_plugins_def)
  moreover have "rq.pool_owned (reqs sv') (own_req (jobs s))" using og e(1) by simp
  moreover have "\<forall>q \<in> ran (own_req (jobs s)). reqHeap (reqs sv') q = reqHeap (reqs (sv s)) q"
    using og by (metis e(1) fun_upd_apply)
  moreover have "rq.pool_owned (reqs sv') ((own_req (jobs s))(i \<mapsto> q))"
    if "jobs s i = None" "rr_req r = Some q" "rr_keepReading r \<or> rr_err r = None"
  proof -
    have "q = q0" using that e(4) by simp
    then show ?thesis using og own_none(1) [of "jobs s" i] that(1) by (simp add: e(1))
  qed
  ultimately show ?thesis using e(2) by blast
qed

lemma pools_inv_quiet:
  assumes "pools_inv s" "reqs (sv t) = reqs (sv s)" "resps (sv t) = resps (sv s)"
    and "sv_plugins (sv t) = sv_plugins (sv s)" "own_req (jobs t) = own_req (jobs s)" "own_resp (jobs t) = own_resp (jobs s)"
  shows "pools_inv t"
  using assms by (simp add: pools_inv_def no_plugins_def)

lemma set_pc_own:
  "jobs s i = Some j \<Longrightarrow> own_req (jobs (set_pc s i p)) = own_req (jobs s)"
  "jobs s i = Some j \<Longrightarrow> resp_of p = resp_of (j_pc j) \<Longrightarrow> own_resp (jobs (set_pc s i p)) = own_resp (jobs s)"
  "jobs s i = Some j \<Longrightarrow> own_resp (jobs (set_pc s i p)) = (own_resp (jobs s))(i := resp_of p)"
  by (auto simp: own_job fun_upd_idem)

lemma pools_inv_step:
  assumes "server_step s t" "pools_inv s" "headers_inv s"
  shows "pools_inv t"
  using assms
proof (induction rule: server_step.induct)
  case (register upper ord s r al useAlias sv' e)
  from register_effect [OF register(1)] show ?case by (intro pools_inv_quiet [OF register(2)]) simp_all
next
  case (no_accept ord s stop accepted sv')
  from accept_effect [OF no_accept(1)] show ?case by (intro pools_inv_quiet [OF no_accept(2)]) simp_all
next
  case (accept ord s stop c0 sv' c cd)
  from accept_effect [OF accept(1)] show ?case by (intro pools_inv_quiet [OF accept(3)]) simp_all
next
  case (read_end s c k cc rf ord sv' cd r)
  from read_pools [OF read_end(3,6)] read_end(6) show ?case by (simp add: pools_inv_def)
next
  case (read_skip s c k cc rf ord sv' cd r)
  from read_pools [OF read_skip(3,7)] read_skip(7) show ?case by (simp add: pools_inv_def)
next
  case (read_bad s c k cc rf ord sv' cd r e q)
  from read_pools [OF read_bad(3,7), of "length (requests s)" q] read_bad headers_fresh [OF read_bad(8)]
  show ?case by (simp add: pools_inv_def own_idem)
next
  case (read_ok s c k cc rf ord sv' cd r ref q a v)
  from read_pools [OF read_ok(3,9), of "length (requests s)" q] read_ok headers_fresh [OF read_ok(10)]
  show ?case by (simp add: pools_inv_def own_idem)
next
  case (count s i j ref a v)
  from count(1,2) show ?case by (intro pools_inv_quiet [OF count(3)]) (simp_all add: own_job fun_upd_idem)
next
  case (invoke s i j ref a v fn reply msg)
  from invoke(1,2) show ?case by (intro pools_inv_quiet [OF invoke(4)]) (simp_all add: own_job fun_upd_idem)
next
  case (header s i j msg reply resp reply' sv')
  obtain q p where g: "getResponse (resps (sv s)) = (q, p)" by fastforce
  obtain h where e: "resp = q" "reqs sv' = reqs (sv s)" "sv_plugins sv' = sv_plugins (sv s)" "resps sv' = storeResponse p q h"
    using sendResponse_header_effect [OF header(3) g] by blast
  have own: "rp.pool_owned (resps (sv s)) (own_resp (jobs s))" using header(4) by (simp add: pools_inv_def)
  have "own_resp (jobs s) i = None" using header(1,2) by (simp add: own_job)
  with rp.owned_get [OF own g, of h i] header(1,4) e show ?case
    by (simp add: pools_inv_def no_plugins_def own_idem)
next
  case (put_wire s i j resp reply k cc ord sv' cd)
  have np: "no_plugins (sv s)" and own: "rp.pool_owned (resps (sv s)) (own_resp (jobs s))"
    using put_wire(5) by (simp_all add: pools_inv_def)
  obtain h' where e: "reqs sv' = reqs (sv s)" "sv_plugins sv' = sv_plugins (sv s)" "resps sv' = storeResponse (resps (sv s)) resp h'"
    using sendResponse_write_effect [OF put_wire(4) np] by blast
  have o: "own_resp (jobs s) i = Some resp" using put_wire(1,2) by (simp add: own_job)
  from rp.owned_store [OF own o, of h'] put_wire(1,5) e show ?case
    by (simp add: pools_inv_def no_plugins_def own_idem fun_upd_idem [of "own_resp (jobs s)", OF o])
next
  case (free s i j resp)
  have own: "rp.pool_owned (resps (sv s)) (own_resp (jobs s))" using free(3) by (simp add: pools_inv_def)
  have o: "own_resp (jobs s) i = Some resp" using free(1,2) by (simp add: own_job)
  from rp.owned_put [OF own o] free(1,3) show ?case by (simp add: pools_inv_def no_plugins_def own_idem)
next
  case (finish s i j)
  have own: "rq.pool_owned (reqs (sv s)) (own_req (jobs s))" using finish(3) by (simp add: pools_inv_def)
  have o: "own_req (jobs s) i = Some (j_req j)" "own_resp (jobs s) i = None" using finish(1,2) by (simp_all add: own_job)
  from rq.owned_put [OF own o(1)] finish(3) o(2) show ?case
    by (simp add: pools_inv_def no_plugins_def fun_upd_idem [of "own_resp (jobs s)", OF o(2)])
next
  case (close s c k cc cd e)
  show ?case by (intro pools_inv_quiet [OF close(5)]) simp_all
next
  case (leave s c k ord sv')
  from handleConn_end_effect [OF leave(3)] show ?case by (intro pools_inv_quiet [OF leave(4)]) simp_all
qed

subsection \<open>Headers\<close>

lemma headers_invD: "headers_inv s \<Longrightarrow> jobs s i = Some j \<Longrightarrow> job_ok (sv s) (requests s) i j"
  by (simp add: headers_inv_def)

lemma job_ok_mono:
  assumes "job_ok server rqs i j" "reqHeap (reqs server') (j_req j) = reqHeap (reqs server) (j_req j)"
    and "\<And>r. resp_of (j_pc j) = Some r \<Longrightarrow> respHeap (resps server') r = respHeap (resps server) r"
  shows "job_ok server' (rqs @ xs) i j"
  using assms by (auto simp: job_ok_def nth_append)

lemma job_ok_pc:
  "job_ok server rqs i j \<Longrightarrow> reqHeap (reqs server') (j_req j) = reqHeap (reqs server) (j_req j) \<Longrightarrow>
   \<forall>r x. p \<noteq> JWrite r x \<Longrightarrow> job_ok server' rqs i (j\<lparr>j_pc := p\<rparr>)"
  by (simp add: job_ok_def)

text \<open>A step of job \<open>i\<close>: the other jobs and their cells stay.\<close>

lemma headers_inv_change:
  assumes inv: "headers_inv s" and rq: "requests t = requests s @ xs"
    and others: "\<And>i' j'. i' \<noteq> i \<Longrightarrow> jobs t i' = Some j' \<Longrightarrow> jobs s i' = Some j'"
    and cells: "\<And>i' j'. i' \<noteq> i \<Longrightarrow> jobs s i' = Some j' \<Longrightarrow>
      reqHeap (reqs (sv t)) (j_req j') = reqHeap (reqs (sv s)) (j_req j')
      \<and> (\<forall>r. resp_of (j_pc j') = Some r \<longrightarrow> respHeap (resps (sv t)) r = respHeap (resps (sv s)) r)"
    and here: "\<And>j'. jobs t i = Some j' \<Longrightarrow> job_ok (sv t) (requests t) i j'"
  shows "headers_inv t"
  unfolding headers_inv_def
proof (intro allI impI)
  fix i' j' assume j: "jobs t i' = Some j'"
  show "job_ok (sv t) (requests t) i' j'"
  proof (cases "i' = i")
    case True
    then show ?thesis using here j by simp
  next
    case False
    with others j have "jobs s i' = Some j'" by blast
    with headers_invD [OF inv this] cells [OF False this] show ?thesis
      unfolding rq by (blast intro: job_ok_mono)
  qed
qed

lemma headers_inv_quiet:
  assumes inv: "headers_inv s" and eqs: "jobs t = jobs s" "requests t = requests s"
    and cells: "\<And>q. q \<in> ran (own_req (jobs s)) \<Longrightarrow> reqHeap (reqs (sv t)) q = reqHeap (reqs (sv s)) q"
      "resps (sv t) = resps (sv s)"
  shows "headers_inv t"
proof (rule headers_inv_change [OF inv, where i = "length (requests s)" and xs = "[]"])
  fix i' j' assume "jobs s i' = Some j'"
  then have "j_req j' \<in> ran (own_req (jobs s))" by (intro ranI [of _ i']) (simp add: own_job)
  then show "reqHeap (reqs (sv t)) (j_req j') = reqHeap (reqs (sv s)) (j_req j')
      \<and> (\<forall>r. resp_of (j_pc j') = Some r \<longrightarrow> respHeap (resps (sv t)) r = respHeap (resps (sv s)) r)"
    using cells by simp
qed (simp_all add: eqs headers_fresh [OF inv])

lemma headers_inv_new:
  assumes inv: "headers_inv s" and j: "jobs t = (jobs s)(length (requests s) \<mapsto> \<lparr>j_conn = c, j_req = q, j_pc = p\<rparr>)"
    and rq: "requests t = requests s @ [(c, reqHeap (reqs (sv t)) q)]" and p: "resp_of p = None"
    and cells: "\<And>q. q \<in> ran (own_req (jobs s)) \<Longrightarrow> reqHeap (reqs (sv t)) q = reqHeap (reqs (sv s)) q"
      "resps (sv t) = resps (sv s)"
  shows "headers_inv t"
proof (rule headers_inv_change [OF inv rq, where i = "length (requests s)"])
  fix i' j' assume "jobs s i' = Some j'"
  then have "j_req j' \<in> ran (own_req (jobs s))" by (intro ranI [of _ i']) (simp add: own_job)
  then show "reqHeap (reqs (sv t)) (j_req j') = reqHeap (reqs (sv s)) (j_req j')
      \<and> (\<forall>r. resp_of (j_pc j') = Some r \<longrightarrow> respHeap (resps (sv t)) r = respHeap (resps (sv s)) r)"
    using cells by simp
qed (use p in \<open>auto simp: j rq job_ok_def\<close>)

lemma req_apart:
  assumes "pools_inv s" "jobs s i = Some j" "jobs s i' = Some j'" "i' \<noteq> i"
  shows "j_req j' \<noteq> j_req j"
  using assms rq.owned_apart [of "reqs (sv s)" "own_req (jobs s)" i "j_req j" i'] by (auto simp: pools_inv_def own_job)

lemma resp_apart:
  assumes "pools_inv s" "jobs s i = Some j" "jobs s i' = Some j'" "i' \<noteq> i"
    "resp_of (j_pc j) = Some r" "resp_of (j_pc j') = Some r'"
  shows "r' \<noteq> r"
  using assms rp.owned_apart [of "resps (sv s)" "own_resp (jobs s)" i r i'] by (auto simp: pools_inv_def own_job)

lemma headers_inv_header:
  assumes job: "jobs s i = Some j" and send: "sendResponse_header (sv s) (j_req j) reply msg = (resp, reply', sv')"
    and pools: "pools_inv s" and hd: "headers_inv s"
  shows "headers_inv (set_pc (s\<lparr>sv := sv'\<rparr>) i (JWrite resp reply'))"
proof -
  obtain q p where g: "getResponse (resps (sv s)) = (q, p)" by fastforce
  obtain h where e: "resp = q" "reqs sv' = reqs (sv s)" "resps sv' = storeResponse p q h"
      "resp_Seq h = req_Seq (reqHeap (reqs (sv s)) (j_req j))"
      "resp_ServiceMethod h = req_ServiceMethod (reqHeap (reqs (sv s)) (j_req j))"
    using sendResponse_header_effect [OF send g] by blast
  have own: "rp.pool_owned (resps (sv s)) (own_resp (jobs s))" using pools by (simp add: pools_inv_def)
  have new: "q \<notin> ran (own_resp (jobs s))" and cell: "respHeap (resps sv') = (respHeap (resps (sv s)))(q := h)"
    using rp.owned_get [OF own g, of h] e(3) by simp_all
  have kept: "respHeap (resps sv') r = respHeap (resps (sv s)) r" if "jobs s i' = Some j'" "resp_of (j_pc j') = Some r" for i' j' r
  proof -
    have "own_resp (jobs s) i' = Some r" using that by (simp add: own_job)
    then have "r \<noteq> q" using new by (auto intro: ranI)
    then show ?thesis by (simp add: cell)
  qed
  show ?thesis
  proof (rule headers_inv_change [OF hd, where i = i and xs = "[]"])
    fix j' assume "jobs (set_pc (s\<lparr>sv := sv'\<rparr>) i (JWrite resp reply')) i = Some j'"
    then have "j' = j\<lparr>j_pc := JWrite resp reply'\<rparr>" using job by simp
    then show "job_ok (sv (set_pc (s\<lparr>sv := sv'\<rparr>) i (JWrite resp reply')))
        (requests (set_pc (s\<lparr>sv := sv'\<rparr>) i (JWrite resp reply'))) i j'"
      using headers_invD [OF hd job] e cell by (auto simp: job_ok_def reply_to_def)
  qed (use kept e(2) in \<open>auto split: if_splits\<close>)
qed

lemma headers_inv_step:
  assumes "server_step s t" "pools_inv s" "headers_inv s"
  shows "headers_inv t"
  using assms
proof (induction rule: server_step.induct)
  case (register upper ord s r al useAlias sv' e)
  from register_effect [OF register(1)] show ?case by (intro headers_inv_quiet [OF register(3)]) simp_all
next
  case (no_accept ord s stop accepted sv')
  from accept_effect [OF no_accept(1)] show ?case by (intro headers_inv_quiet [OF no_accept(3)]) simp_all
next
  case (accept ord s stop c0 sv' c cd)
  from accept_effect [OF accept(1)] show ?case by (intro headers_inv_quiet [OF accept(4)]) simp_all
next
  case (read_end s c k cc rf ord sv' cd r)
  from read_pools [OF read_end(3,6)] show ?case by (intro headers_inv_quiet [OF read_end(7)]) simp_all
next
  case (read_skip s c k cc rf ord sv' cd r)
  from read_pools [OF read_skip(3,7)] show ?case by (intro headers_inv_quiet [OF read_skip(8)]) simp_all
next
  case (read_bad s c k cc rf ord sv' cd r e q)
  from read_pools [OF read_bad(3,7), of 0 q] show ?case by (intro headers_inv_new [OF read_bad(8), where p = "JSend (error_text e) None" and c = c and q = q]) simp_all
next
  case (read_ok s c k cc rf ord sv' cd r ref q a v)
  from read_pools [OF read_ok(3,9), of 0 q] show ?case by (intro headers_inv_new [OF read_ok(10), where p = "JCall ref a v" and c = c and q = q]) simp_all
next
  case (count s i j ref a v)
  from job_ok_pc [OF headers_invD [OF count(4,1)], of "count_call (sv s) ref" "JInvoke ref a v"] count(1) show ?case
    by (intro headers_inv_change [OF count(4), where i = i and xs = "[]"]) (auto split: if_splits)
next
  case (invoke s i j ref a v fn reply msg)
  from job_ok_pc [OF headers_invD [OF invoke(5,1)], of "sv s" "JSend msg (Some reply)"] invoke(1) show ?case
    by (intro headers_inv_change [OF invoke(5), where i = i and xs = "[]"]) (auto split: if_splits)
next
  case (header s i j msg reply resp reply' sv')
  show ?case by (rule headers_inv_header [OF header(1,3,4,5)])
next
  case (put_wire s i j resp reply k cc ord sv' cd)
  have np: "no_plugins (sv s)" using put_wire(5) by (simp add: pools_inv_def)
  obtain h' where e: "reqs sv' = reqs (sv s)" "resps sv' = storeResponse (resps (sv s)) resp h'"
    using sendResponse_write_effect [OF put_wire(4) np] by blast
  have kept: "respHeap (resps sv') r = respHeap (resps (sv s)) r"
    if "i' \<noteq> i" "jobs s i' = Some j'" "resp_of (j_pc j') = Some r" for i' j' r
    using resp_apart [OF put_wire(5,1) that(2,1)] put_wire(2) that(3) by (auto simp: e(2) rp.store_cell)
  from job_ok_pc [OF headers_invD [OF put_wire(6,1)], of sv' "JFree resp"] put_wire(1) kept e(1) show ?case
    by (intro headers_inv_change [OF put_wire(6), where i = i and xs = "[]"]) (auto split: if_splits)
next
  case (free s i j resp)
  have kept: "respHeap (freeResponse (resps (sv s)) resp) r = respHeap (resps (sv s)) r"
    if "i' \<noteq> i" "jobs s i' = Some j'" "resp_of (j_pc j') = Some r" for i' j' r
    using resp_apart [OF free(3,1) that(2,1)] free(2) that(3) by (intro rp.put_cell) auto
  from job_ok_pc [OF headers_invD [OF free(4,1)], of "sendResponse_free (sv s) resp" JDone] free(1) kept show ?case
    by (intro headers_inv_change [OF free(4), where i = i and xs = "[]"]) (auto split: if_splits)
next
  case (finish s i j)
  have kept: "reqHeap (freeRequest (reqs (sv s)) (j_req j)) (j_req j') = reqHeap (reqs (sv s)) (j_req j')"
    if "i' \<noteq> i" "jobs s i' = Some j'" for i' j'
    using req_apart [OF finish(3,1) that(2,1)] by (intro rq.put_cell) auto
  then show ?case
    by (intro headers_inv_change [OF finish(4), where i = i and xs = "[]"]) (auto split: if_splits)
next
  case (close s c k cc cd e)
  show ?case by (intro headers_inv_quiet [OF close(6)]) simp_all
next
  case (leave s c k ord sv')
  from handleConn_end_effect [OF leave(3)] show ?case by (intro headers_inv_quiet [OF leave(5)]) simp_all
qed

subsection \<open>Answers\<close>

lemma unanswered_upd [simp]:
  "unanswered (J(i := None)) = unanswered J - {i}"
  "unanswered (J(i \<mapsto> j)) = (if answered (j_pc j) then unanswered J - {i} else insert i (unanswered J))"
  by (auto simp: unanswered_def split: if_splits)

lemma unanswered_job: "J i = Some j \<Longrightarrow> i \<in> unanswered J \<longleftrightarrow> \<not> answered (j_pc j)"
  by (simp add: unanswered_def)

lemma answers_inv_same:
  assumes "answers_inv s" "answers t = answers s" "requests t = requests s" "unanswered (jobs t) = unanswered (jobs s)"
  shows "answers_inv t"
  using assms by (simp add: answers_inv_def)

lemma answers_inv_new:
  assumes inv: "answers_inv s" and eqs: "answers t = answers s" "requests t = requests s @ [x]"
    and un: "unanswered (jobs t) = insert (length (requests s)) (unanswered (jobs s))"
  shows "answers_inv t"
proof -
  have "i < length (requests s)" if "(i, c, h, x) \<in> set (answers s)" for i c h x
  proof -
    have "i \<in> fst ` set (answers s)" using that by force
    then show ?thesis using inv by (simp add: answers_inv_def)
  qed
  then show ?thesis using inv unfolding answers_inv_def eqs un by (auto simp: nth_append)
qed

lemma answers_inv_answer:
  assumes inv: "answers_inv s" and eqs: "answers t = answers s @ [(i, c, h, x)]" "requests t = requests s"
    and un: "unanswered (jobs t) = unanswered (jobs s) - {i}" "i \<in> unanswered (jobs s)" "i < length (requests s)"
    and ok: "fst (requests s ! i) = c" "reply_to (snd (requests s ! i)) h"
  shows "answers_inv t"
proof -
  have "i \<notin> fst ` set (answers s)" using inv un(2) by (auto simp: answers_inv_def)
  then show ?thesis using inv un ok unfolding answers_inv_def eqs un(1) by auto
qed

lemma answers_inv_step:
  assumes "server_step s t" "pools_inv s" "headers_inv s" "answers_inv s"
  shows "answers_inv t"
  using assms
proof (induction rule: server_step.induct)
  case (read_bad s c k cc rf ord sv' cd r e q)
  show ?case by (rule answers_inv_new [OF read_bad(9)]) simp_all
next
  case (read_ok s c k cc rf ord sv' cd r ref q a v)
  show ?case by (rule answers_inv_new [OF read_ok(11)]) simp_all
next
  case (put_wire s i j resp reply k cc ord sv' cd)
  note ok = headers_invD [OF put_wire(6,1)]
  have "no_plugins (sv s)" using put_wire(5) by (simp add: pools_inv_def)
  then have w: "snd cd = snd (scodec k) @ [(respHeap (resps (sv s)) resp, reply)]"
    by (rule sendResponse_write_log [OF put_wire(4)])
  have "i < length (requests s)" "fst (requests s ! i) = j_conn j" "reply_to (snd (requests s ! i)) (respHeap (resps (sv s)) resp)"
    using ok put_wire(2) unfolding job_ok_def by auto
  with put_wire(1,2) w show ?case
    by (intro answers_inv_answer [OF put_wire(7), where i = i and c = "j_conn j" and h = "respHeap (resps (sv s)) resp" and x = reply])
      (simp_all add: unanswered_job)
qed (rule answers_inv_same, assumption, simp, simp, simp add: unanswered_job insert_absorb)+

subsection \<open>Connections\<close>

lemma job_conn_upd [simp]:
  "job_conn (J(i := None)) = (job_conn J)(i := None)" "job_conn (J(i \<mapsto> j)) = (job_conn J)(i \<mapsto> j_conn j)"
  by (auto simp: job_conn_def fun_eq_iff)

lemma job_conn_job: "jobs s i = Some j \<Longrightarrow> job_conn (jobs s) i = Some (j_conn j)"
  "jobs s i = None \<Longrightarrow> job_conn (jobs s) i = None"
  by (simp_all add: job_conn_def)

lemma conn_view_upd [simp]:
  "conn_view (C(c := map_option f x)) = (conn_view C)(c := map_option (\<lambda>k. (reader (f k), wg (f k))) x)"
  "conn_view (C(c \<mapsto> k)) = (conn_view C)(c \<mapsto> (reader k, wg k))"
  by (auto simp: conn_view_def fun_eq_iff option.map_comp comp_def)

lemma conn_view_conn: "conns s c = Some k \<Longrightarrow> conn_view (conns s) c = Some (reader k, wg k)"
  by (simp add: conn_view_def)

lemma set_pc_view: "job_conn (jobs (set_pc s i p)) = job_conn (jobs s)"
  by (rule ext) (simp add: job_conn_def option.map_comp comp_def)

lemma set_codec_view: "conn_view (conns (set_codec s c cd)) = conn_view (conns s)"
  by (rule ext) (simp add: conn_view_def option.map_comp comp_def)

lemma finite_counted: "finite (dom K) \<Longrightarrow> finite (counted K c p)"
  by (rule finite_subset [of _ "dom K"]) (auto simp: counted_def)

lemma counted_other:
  "x \<noteq> Some c' \<Longrightarrow> K i \<noteq> Some c' \<Longrightarrow> counted (K(i := x)) c' p = counted K c' p"
  by (auto simp: counted_def)

lemma conns_okD: "conns_ok K V \<Longrightarrow> V c = Some pn \<Longrightarrow> conn_ok K c pn"
  by (simp only: conns_ok_def)

lemma conn_ok_other:
  "conn_ok K c' pn \<Longrightarrow> x \<noteq> Some c' \<Longrightarrow> K i \<noteq> Some c' \<Longrightarrow> conn_ok (K(i := x)) c' pn"
  by (auto simp: conn_ok_def counted_other)

text \<open>A step of connection \<open>c\<close> that changes the job \<open>i\<close>, of no other connection.\<close>

lemma conns_ok_change:
  assumes inv: "conns_ok K V" and c: "x = None \<or> x = Some c" "K i = None \<or> K i = Some c"
    and here: "conn_ok (K(i := x)) c pn"
  shows "conns_ok (K(i := x)) (V(c \<mapsto> pn))"
proof -
  have "finite (dom (K(i := x)))" using inv by (simp add: conns_ok_def)
  moreover have "ran (K(i := x)) \<subseteq> insert c (dom V)"
    using inv c(1) by (auto simp: conns_ok_def ran_def split: if_splits)
  moreover have "conn_ok (K(i := x)) c' pn'" if "V c' = Some pn'" "c' \<noteq> c" for c' pn'
    using conns_okD [OF inv that(1)] that(2) c by (intro conn_ok_other) auto
  ultimately show ?thesis using here by (auto simp: conns_ok_def)
qed

lemma conns_ok_reader:
  assumes inv: "conns_ok K V" and here: "conn_ok K c pn"
  shows "conns_ok K (V(c \<mapsto> pn))"
  using inv here by (auto simp: conns_ok_def)

text \<open>The five changes of a connection.\<close>

lemma conn_ok_waiting: "conn_ok K c (Reading, n) \<Longrightarrow> conn_ok K c (Waiting, n)"
  by (simp add: conn_ok_def counted_def)

lemma conn_ok_served: "conn_ok K c (Waiting, n) \<Longrightarrow> counted K c Waiting = {} \<Longrightarrow> conn_ok K c (Served, n)"
  by (simp add: conn_ok_def counted_def)

lemma conn_ok_ended: "conn_ok K c (Served, n) \<Longrightarrow> conn_ok K c (Ended, n)"
  by (simp add: conn_ok_def counted_def)

lemma conn_ok_new: "K n = None \<Longrightarrow> conn_ok K c (Reading, w) \<Longrightarrow> conn_ok (K(n \<mapsto> c)) c (Busy n, w)"
proof -
  assume K: "K n = None" "conn_ok K c (Reading, w)"
  then have "counted (K(n \<mapsto> c)) c (Busy n) = counted K c Reading" by (auto simp: counted_def)
  then show ?thesis using K by (simp add: conn_ok_def)
qed

lemma conn_ok_spawn:
  "finite (dom K) \<Longrightarrow> K n = None \<Longrightarrow> conn_ok K c (Reading, w) \<Longrightarrow> conn_ok (K(n \<mapsto> c)) c (Reading, Suc w)"
proof -
  assume K: "finite (dom K)" "K n = None" "conn_ok K c (Reading, w)"
  then have "counted (K(n \<mapsto> c)) c Reading = insert n (counted K c Reading)" "n \<notin> counted K c Reading"
    by (auto simp: counted_def)
  then show ?thesis using K finite_counted [OF K(1)] by (simp add: conn_ok_def)
qed

lemma conn_ok_finish:
  assumes K: "finite (dom K)" "K i = Some c" "conn_ok K c (p, w)"
  shows "conn_ok (K(i := None)) c (if p = Busy i then (Reading, w) else (p, w - 1))"
proof (cases "p = Busy i")
  case True
  then have "counted (K(i := None)) c Reading = counted K c p" by (auto simp: counted_def)
  then show ?thesis using K True by (simp add: conn_ok_def)
next
  case False
  then have i: "i \<in> counted K c p" and del: "counted (K(i := None)) c p = counted K c p - {i}"
    using K by (auto simp: counted_def)
  then show ?thesis using K False finite_counted [OF K(1)] by (auto simp: conn_ok_def card_Diff_singleton)
qed

lemma conns_inv_quiet:
  "conns_inv (s\<lparr>sv := x\<rparr>) = conns_inv s" "conns_inv (s\<lparr>sv := x, answers := y\<rparr>) = conns_inv s"
  "conns_inv (set_pc s i p) = conns_inv s" "conns_inv (set_codec s c cd) = conns_inv s"
  using set_pc_view [of s i p] set_codec_view [of s c cd] by (simp_all add: conns_inv_def)

lemma conns_inv_step:
  assumes "server_step s t" "headers_inv s" "conns_inv s"
  shows "conns_inv t"
  using assms
proof (induction rule: server_step.induct)
  case (accept ord s stop c0 sv' c cd)
  have ok: "conns_ok (job_conn (jobs s)) (conn_view (conns s))" using accept(4) by (simp add: conns_inv_def)
  then have "c \<notin> ran (job_conn (jobs s))" using accept(2) by (auto simp: conns_ok_def conn_view_def)
  then have "counted (job_conn (jobs s)) c p = {}" for p by (auto simp: counted_def ran_def)
  then show ?case using conns_ok_reader [OF ok] by (simp add: conns_inv_def conn_ok_def)
next
  case (read_end s c k cc rf ord sv' cd r)
  have ok: "conns_ok (job_conn (jobs s)) (conn_view (conns s))" using read_end(7) by (simp add: conns_inv_def)
  have "conn_ok (job_conn (jobs s)) c (Waiting, wg k)"
    using conns_okD [OF ok conn_view_conn [OF read_end(1)]] read_end(2)
    by (intro conn_ok_waiting) simp
  from conns_ok_reader [OF ok this] read_end(1) show ?case by (simp add: conns_inv_def)
next
  case (read_bad s c k cc rf ord sv' cd r e q)
  have ok: "conns_ok (job_conn (jobs s)) (conn_view (conns s))" using read_bad(8) by (simp add: conns_inv_def)
  have new: "job_conn (jobs s) (length (requests s)) = None" using headers_fresh [OF read_bad(7)] by (rule job_conn_job)
  have "conn_ok (job_conn (jobs s)) c (Reading, wg k)"
    using conns_okD [OF ok conn_view_conn [OF read_bad(1)]] read_bad(2) by simp
  from conns_ok_change [OF ok _ _ conn_ok_new [OF new this]] new read_bad(1) show ?case by (simp add: conns_inv_def)
next
  case (read_ok s c k cc rf ord sv' cd r ref q a v)
  have ok: "conns_ok (job_conn (jobs s)) (conn_view (conns s))" using read_ok(10) by (simp add: conns_inv_def)
  then have fin: "finite (dom (job_conn (jobs s)))" by (simp add: conns_ok_def)
  have new: "job_conn (jobs s) (length (requests s)) = None" using headers_fresh [OF read_ok(9)] by (rule job_conn_job)
  have "conn_ok (job_conn (jobs s)) c (Reading, wg k)"
    using conns_okD [OF ok conn_view_conn [OF read_ok(1)]] read_ok(2) by simp
  from conns_ok_change [OF ok _ _ conn_ok_spawn [OF fin new this]] new read_ok(1,2) show ?case by (simp add: conns_inv_def)
next
  case (finish s i j)
  have ok: "conns_ok (job_conn (jobs s)) (conn_view (conns s))" using finish(4) by (simp add: conns_inv_def)
  then have fin: "finite (dom (job_conn (jobs s)))" by (simp add: conns_ok_def)
  have job: "job_conn (jobs s) i = Some (j_conn j)" using finish(1) by (rule job_conn_job)
  then have "j_conn j \<in> dom (conn_view (conns s))" using ok ranI [of "job_conn (jobs s)" i] by (auto simp only: conns_ok_def)
  then obtain k where k: "conns s (j_conn j) = Some k" by (auto simp: conn_view_def)
  note conn_ok_finish [OF fin job conns_okD [OF ok conn_view_conn [OF k]]]
  from conns_ok_change [OF ok _ _ this] job k show ?case by (simp add: conns_inv_def split: if_splits)
next
  case (close s c k cc cd e)
  have ok: "conns_ok (job_conn (jobs s)) (conn_view (conns s))" using close(6) by (simp add: conns_inv_def)
  then have fin: "finite (dom (job_conn (jobs s)))" by (simp add: conns_ok_def)
  have w: "conn_ok (job_conn (jobs s)) c (Waiting, 0)"
    using conns_okD [OF ok conn_view_conn [OF close(1)]] close(2,3) by simp
  then have "counted (job_conn (jobs s)) c Waiting = {}" using finite_counted [OF fin] by (simp add: conn_ok_def)
  with w have "conn_ok (job_conn (jobs s)) c (Served, 0)" by (intro conn_ok_served)
  from conns_ok_reader [OF ok this] close(1,3) show ?case by (simp add: conns_inv_def)
next
  case (leave s c k ord sv')
  have ok: "conns_ok (job_conn (jobs s)) (conn_view (conns s))" using leave(5) by (simp add: conns_inv_def)
  have "conn_ok (job_conn (jobs s)) c (Served, wg k)"
    using conns_okD [OF ok conn_view_conn [OF leave(1)]] leave(2) by simp
  then have "conn_ok (job_conn (jobs s)) c (Ended, wg k)" by (rule conn_ok_ended)
  from conns_ok_reader [OF ok this] leave(1) show ?case by (simp add: conns_inv_def)
qed (simp_all only: conns_inv_quiet)

subsection \<open>The wire\<close>

lemma wire_same: "(\<And>k. scodec (f k) = scodec k) \<Longrightarrow> wire (C(c := map_option f (C c))) = wire C"
  by (auto simp: wire_def fun_eq_iff split: option.splits)

lemma wire_codec: "C c = Some k \<Longrightarrow> wire (C(c \<mapsto> k\<lparr>scodec := cd\<rparr>)) = (wire C)(c := snd cd)"
  by (auto simp: wire_def fun_eq_iff)

lemma wire_fresh: "C c = None \<Longrightarrow> snd (scodec k) = [] \<Longrightarrow> wire (C(c \<mapsto> k)) = wire C"
  by (auto simp: wire_def fun_eq_iff)

lemma wire_kept:
  "wire (conns (set_reader s c p)) = wire (conns s)" "wire (conns (add_wg s c)) = wire (conns s)"
  "wire (conns (end_job s i c)) = wire (conns s)"
  "conns s c = Some k \<Longrightarrow> snd cd = snd (scodec k) \<Longrightarrow> wire (conns (set_codec s c cd)) = wire (conns s)"
  by (simp_all add: wire_same) (auto simp: wire_def fun_eq_iff)

lemma wire_inv_same:
  assumes "wire_inv s" "answers t = answers s" "wire (conns t) = wire (conns s)"
  shows "wire_inv t"
  using assms by (simp add: wire_inv_def)

lemma wire_inv_answer:
  assumes "wire_inv s" "conns s c = Some k" "wire (conns t) = (wire (conns s))(c := snd (scodec k) @ ws)"
    and "answers t = answers s @ map (Pair i \<circ> Pair c) ws"
  shows "wire_inv t"
proof -
  have "answers_on (map (Pair i \<circ> Pair c) ws) c' = (if c' = c then ws else [])" for c'
    by (simp add: answers_on_def filter_map comp_def)
  moreover have "answers_on (answers s) c = snd (scodec k)"
    using assms(1,2) unfolding wire_inv_def wire_def by (metis option.simps(5))
  ultimately show ?thesis
    using assms(1,3,4) by (auto simp: wire_inv_def answers_on_def fun_eq_iff)
qed

lemma wire_inv_step:
  assumes "server_step s t" "pools_inv s" "wire_inv s"
  shows "wire_inv t"
  using assms
proof (induction rule: server_step.induct)
  case (accept ord s stop c0 sv' c cd)
  from accept(4) show ?case by (rule wire_inv_same) (simp_all add: wire_fresh accept(2))
next
  case (read_end s c k cc rf ord sv' cd r)
  from read_end(7) show ?case
    by (rule wire_inv_same) (simp_all add: wire_same, simp add: wire_def fun_eq_iff read_end(1) readRequest_log [OF read_end(3)])
next
  case (read_skip s c k cc rf ord sv' cd r)
  from read_skip(8) show ?case
    by (rule wire_inv_same) (simp_all add: wire_def fun_eq_iff read_skip(1) readRequest_log [OF read_skip(3)])
next
  case (read_bad s c k cc rf ord sv' cd r e q)
  from read_bad(8) show ?case
    by (rule wire_inv_same) (simp_all add: wire_def fun_eq_iff read_bad(1) readRequest_log [OF read_bad(3)])
next
  case (read_ok s c k cc rf ord sv' cd r ref q a v)
  from read_ok(10) show ?case
    by (rule wire_inv_same) (simp_all add: wire_def fun_eq_iff read_ok(1) readRequest_log [OF read_ok(3)])
next
  case (put_wire s i j resp reply k cc ord sv' cd)
  have "no_plugins (sv s)" using put_wire(5) by (simp add: pools_inv_def)
  then have w: "snd cd = snd (scodec k) @ [(respHeap (resps (sv s)) resp, reply)]"
    by (rule sendResponse_write_log [OF put_wire(4)])
  from put_wire(6,3) show ?case
    by (rule wire_inv_answer [where ws = "[(respHeap (resps (sv s)) resp, reply)]" and i = i])
       (simp_all add: w wire_codec put_wire(3))
next
  case (finish s i j)
  from finish(4) show ?case by (rule wire_inv_same) (simp_all add: wire_same)
next
  case (close s c k cc cd e)
  from close(6) show ?case
    by (rule wire_inv_same) (simp_all add: wire_def fun_eq_iff close(1) close_log [OF close(4)])
next
  case (leave s c k ord sv')
  from leave(5) show ?case by (rule wire_inv_same) (simp_all add: wire_same)
qed (rule wire_inv_same, assumption, simp, simp)+

section \<open>Every request is answered once\<close>

lemma views_empty:
  "own_req Map.empty = Map.empty" "own_resp Map.empty = Map.empty" "job_conn Map.empty = Map.empty"
  "conn_view Map.empty = Map.empty" "wire Map.empty = answers_on []"
  by (simp_all add: own_req_def own_resp_def job_conn_def conn_view_def wire_def answers_on_def fun_eq_iff)

lemma server_inv_init:
  assumes "newRpcServerWithOptions listen w conf = Returns server" "server_Start server = Returns server'"
  shows "server_inv (ssys_init server')"
proof -
  have "sv_plugins server' = newServerPluginManager" "reqs server' = newReqPool" "resps server' = newRespPool"
    using assms
    by (auto simp: newRpcServerWithOptions_def server_check_def cfg_check_def initListener_def server_Start_def
        split: sum.splits if_splits option.splits)
  then show ?thesis
    by (simp add: views_empty server_inv_def ssys_init_def pools_inv_def no_plugins_def headers_inv_def answers_inv_def
        conns_inv_def conns_ok_def unanswered_def newServerPluginManager_def rq.owned_new rp.owned_new
        newReqPool_def newRespPool_def wire_inv_def)
qed

lemma server_inv_reach: "server_reach s \<Longrightarrow> server_inv s"
proof (induction rule: server_reach.induct)
  case (init listen w conf server server')
  then show ?case by (rule server_inv_init)
next
  case (step s t)
  then show ?case
    unfolding server_inv_def by (blast intro: pools_inv_step headers_inv_step answers_inv_step conns_inv_step wire_inv_step)
qed

lemma answers_lt:
  assumes "answers_inv s" "(i, c, h, x) \<in> set (answers s)"
  shows "i < length (requests s)"
proof -
  have "i \<in> fst ` set (answers s)" using assms(2) by force
  then show ?thesis using assms(1) by (simp add: answers_inv_def)
qed

text \<open>
  C2. In every reachable state, whatever the codecs, methods, peers and interleaving do: the
  calls of \<^verbatim>\<open>WriteResponse\<close> on a connection are exactly the recorded answers of its jobs, in
  order; no request is answered twice; an answer went to the connection the request came
  from and carries its sequence number and method name, although the headers of both are
  recycled through the pools; and a request without an answer has a job that still has to
  write it.
\<close>

theorem requests_answered_once:
  assumes "server_reach s"
  shows "(\<forall>c. wire (conns s) c = map (\<lambda>(i, c', h, x). (h, x)) (filter (\<lambda>(i, c', h, x). c' = c) (answers s)))
    \<and> distinct (map fst (answers s))
    \<and> (\<forall>(i, c, h, x) \<in> set (answers s). i < length (requests s) \<and> c = fst (requests s ! i)
         \<and> resp_Seq h = req_Seq (snd (requests s ! i))
         \<and> resp_ServiceMethod h = req_ServiceMethod (snd (requests s ! i)))
    \<and> (\<forall>i < length (requests s). i \<notin> fst ` set (answers s) \<longrightarrow> (\<exists>j. jobs s i = Some j \<and> \<not> answered (j_pc j)))"
proof -
  have inv: "answers_inv s" "wire_inv s" using server_inv_reach [OF assms] by (simp_all add: server_inv_def)
  have "answers_on A c = map (\<lambda>(i, c', h, x). (h, x)) (filter (\<lambda>(i, c', h, x). c' = c) A)"
    for c and A :: "(nat \<times> conn \<times> RpcResponse \<times> 'c option) list"
    unfolding answers_on_def by (induction A) auto
  with inv(2) have "\<forall>c. wire (conns s) c = map (\<lambda>(i, c', h, x). (h, x)) (filter (\<lambda>(i, c', h, x). c' = c) (answers s))"
    by (simp add: wire_inv_def)
  moreover have "i \<in> unanswered (jobs s)" if "i < length (requests s)" "i \<notin> fst ` set (answers s)" for i
    using inv(1) that by (auto simp: answers_inv_def)
  ultimately show ?thesis
    using inv(1) answers_lt [OF inv(1)] unfolding answers_inv_def unanswered_def reply_to_def by blast
qed

lemma mset_selected:
  assumes "distinct is" "set is = {i. i < length rs \<and> P (rs ! i)}"
  shows "mset (map (\<lambda>i. f (rs ! i)) is) = mset (map f (filter P rs))"
proof -
  have "mset is = mset (filter (\<lambda>i. P (rs ! i)) [0..<length rs])"
    using assms by (intro set_eq_iff_mset_eq_distinct [THEN iffD1]) auto
  then have "mset (map (\<lambda>i. f (rs ! i)) is) = mset (map (\<lambda>i. f (rs ! i)) (filter (\<lambda>i. P (rs ! i)) [0..<length rs]))"
    by (simp add: mset_map)
  also have "map (\<lambda>i. f (rs ! i)) (filter (\<lambda>i. P (rs ! i)) [0..<length rs]) = map f (filter P (map ((!) rs) [0..<length rs]))"
    by (simp add: filter_map comp_def)
  finally show ?thesis by (simp add: map_nth)
qed

lemma answers_on_requests:
  assumes "answers_inv s" "\<forall>i < length (requests s). fst (requests s ! i) = c \<longrightarrow> i \<in> fst ` set (answers s)"
  shows "mset (map (\<lambda>(h, x). (resp_Seq h, resp_ServiceMethod h)) (answers_on (answers s) c))
    = mset (map (\<lambda>(c', q). (req_Seq q, req_ServiceMethod q)) (filter (\<lambda>rq. fst rq = c) (requests s)))"
proof -
  let ?A = "filter (\<lambda>a. fst (snd a) = c) (answers s)"
  let ?f = "\<lambda>rq :: conn \<times> RpcRequest. (req_Seq (snd rq), req_ServiceMethod (snd rq))"
  have a: "fst (requests s ! i) = c'" "resp_Seq h = req_Seq (snd (requests s ! i))"
      "resp_ServiceMethod h = req_ServiceMethod (snd (requests s ! i))" if "(i, c', h, x) \<in> set (answers s)" for i c' h x
    using assms(1) that by (auto simp: answers_inv_def reply_to_def)
  have "map (\<lambda>(h, x). (resp_Seq h, resp_ServiceMethod h)) (answers_on (answers s) c) = map (\<lambda>i. ?f (requests s ! i)) (map fst ?A)"
    unfolding answers_on_def map_map by (rule map_cong [OF refl]) (auto dest: a)
  moreover have "distinct (map fst ?A)"
    using assms(1) by (simp add: answers_inv_def distinct_map_filter)
  moreover have "set (map fst ?A) = {i. i < length (requests s) \<and> fst (requests s ! i) = c}"
  proof (intro set_eqI iffI)
    fix i assume "i \<in> set (map fst ?A)"
    then obtain h x where "(i, c, h, x) \<in> set (answers s)" by auto
    then show "i \<in> {i. i < length (requests s) \<and> fst (requests s ! i) = c}"
      using a(1) answers_lt [OF assms(1)] by simp
  next
    fix i assume i: "i \<in> {i. i < length (requests s) \<and> fst (requests s ! i) = c}"
    then obtain c' h x where "(i, c', h, x) \<in> set (answers s)" using assms(2) by auto
    then have "(i, c, h, x) \<in> set ?A" using a(1) i by auto
    then show "i \<in> set (map fst ?A)" by force
  qed
  ultimately have "mset (map (\<lambda>(h, x). (resp_Seq h, resp_ServiceMethod h)) (answers_on (answers s) c))
      = mset (map ?f (filter (\<lambda>rq. fst rq = c) (requests s)))"
    using mset_selected [of "map fst ?A" "requests s" "\<lambda>rq. fst rq = c" ?f] by simp
  moreover have "?f = (\<lambda>(c', q). (req_Seq q, req_ServiceMethod q))" by auto
  ultimately show ?thesis by simp
qed

text \<open>
  C3. When \<^verbatim>\<open>serveCodec\<close> has returned for a connection, its codec closed, every request read
  on that connection has been answered exactly once: the responses its \<^verbatim>\<open>WriteResponse\<close> was
  called with are, up to their order, one for each request, with its sequence number and
  method. No job of the connection is left that could still write to it.
\<close>

theorem served_connection_complete:
  assumes "server_reach s" "conns s c = Some k" "reader k = Served \<or> reader k = Ended"
  shows "mset (map (\<lambda>(h, x). (resp_Seq h, resp_ServiceMethod h)) (snd (scodec k)))
      = mset (map (\<lambda>(c', q). (req_Seq q, req_ServiceMethod q)) (filter (\<lambda>rq. fst rq = c) (requests s)))
    \<and> (\<forall>i < length (requests s). fst (requests s ! i) = c \<longrightarrow> count_list (map fst (answers s)) i = 1)
    \<and> (\<forall>j \<in> ran (jobs s). j_conn j \<noteq> c)"
proof -
  have inv: "answers_inv s" "conns_inv s" "headers_inv s" "wire_inv s"
    using server_inv_reach [OF assms(1)] by (simp_all add: server_inv_def)
  have "conn_ok (job_conn (jobs s)) c (reader k, wg k)"
    using inv(2) conn_view_conn [of s, OF assms(2)] conns_okD [of "job_conn (jobs s)" "conn_view (conns s)"]
    by (simp add: conns_inv_def)
  then have "counted (job_conn (jobs s)) c (reader k) = {}" using assms(3) by (auto simp: conn_ok_def)
  then have idle: "jobs s i = Some j \<Longrightarrow> j_conn j \<noteq> c" for i j
    using assms(3) job_conn_job(1) [of s i j] by (auto simp: counted_def)
  have ans: "i \<in> fst ` set (answers s)" if "i < length (requests s)" "fst (requests s ! i) = c" for i
  proof -
    have "jobs s i \<noteq> Some j" for j
      using headers_invD [OF inv(3), of i j] idle [of i j] that(2) by (auto simp: job_ok_def)
    then show ?thesis using inv(1) that(1) by (auto simp: answers_inv_def unanswered_def)
  qed
  have "count_list (map fst (answers s)) i = 1" if "i < length (requests s)" "fst (requests s ! i) = c" for i
    using inv(1) ans [OF that] by (intro count_list_distinct) (auto simp: answers_inv_def)
  moreover have "snd (scodec k) = answers_on (answers s) c"
    using inv(4) assms(2) unfolding wire_inv_def wire_def by (metis option.simps(5))
  ultimately show ?thesis using answers_on_requests [OF inv(1), of c] ans idle by (auto simp: ran_def)
qed

text \<open>
  C35. The header pools under concurrency: in every reachable state a job still finds in its
  request header what was read for its request, and no two jobs hold the same request
  header or the same response header, although both are recycled while other jobs run.
\<close>

theorem jobs_never_share_headers:
  assumes "server_reach s" "jobs s i = Some j"
  shows "requests s ! i = (j_conn j, reqHeap (reqs (sv s)) (j_req j))
    \<and> (\<forall>i' j'. jobs s i' = Some j' \<and> i' \<noteq> i \<longrightarrow> j_req j' \<noteq> j_req j
         \<and> (\<forall>r. resp_of (j_pc j) = Some r \<longrightarrow> resp_of (j_pc j') \<noteq> Some r))"
proof -
  have inv: "pools_inv s" "headers_inv s" using server_inv_reach [OF assms(1)] by (simp_all add: server_inv_def)
  have "requests s ! i = (j_conn j, reqHeap (reqs (sv s)) (j_req j))"
    using headers_invD [OF inv(2) assms(2)] by (simp add: job_ok_def)
  then show ?thesis using req_apart [OF inv(1) assms(2)] resp_apart [OF inv(1) assms(2)] by blast
qed

subsection \<open>A run: one connection sends a request for an unknown service and hangs up\<close>

definition wire_codec :: "(nat, nat) ServerCodec" where
  "wire_codec = \<lparr>
     ReadRequestHeader = (\<lambda>n r. if n = 0 then (n, r, Some EOF) else (n - 1, r\<lparr>req_ServiceMethod := ''nope'', req_Seq := 5\<rparr>, None)),
     ReadRequestBody = (\<lambda>n x. (n, x, None)), WriteResponse = (\<lambda>n h x. (n, None)), CloseServerCodec = (\<lambda>n. (n, None))\<rparr>"

definition wire_reflect :: "nat Reflect" where
  "wire_reflect = \<lparr>reflect_New = (\<lambda>t. 0), reflect_MakeMap = (\<lambda>t. 0), reflect_MakeSlice = (\<lambda>t. 0)\<rparr>"

text \<open>The states of the run: where the connection and the job are, and what is on the wire.\<close>

definition wire_state :: "(nat, unit, nat) ssys \<Rightarrow> reader_pc \<Rightarrow> nat \<Rightarrow> (nat \<rightharpoonup> nat job) \<Rightarrow> nat wire_log \<Rightarrow> bool" where
  "wire_state s p n J ws \<longleftrightarrow> server_reach s \<and> conns s = [7 \<mapsto> \<lparr>reader = p, scodec = (n, ws), wg = 0\<rparr>] \<and> jobs s = J
     \<and> length (requests s) = 1 - n \<and> (\<forall>rq \<in> set (requests s). fst rq = 7 \<and> req_Seq (snd rq) = 5)
     \<and> length (answers s) = length ws"

lemma logged_wire_codec:
  "ReadRequestHeader (logged wire_codec) (n, ws) r =
     (if n = 0 then ((n, ws), r, Some EOF) else ((n - 1, ws), r\<lparr>req_ServiceMethod := ''nope'', req_Seq := 5\<rparr>, None))"
  "ReadRequestBody (logged wire_codec) c x = (c, x, None)"
  "WriteResponse (logged wire_codec) c h x = ((fst c, snd c @ [(h, x)]), None)"
  "CloseServerCodec (logged wire_codec) c = (c, None)"
  by (simp_all add: logged_def wire_codec_def)

lemma wire_plugins: "server_reach s \<Longrightarrow> no_plugins (sv s)"
  using server_inv_reach [of s] by (simp add: server_inv_def pools_inv_def)

lemma wire_accept: "\<exists>s. wire_state s Reading 1 Map.empty []"
proof -
  have "server_reach (ssys_init demo_sv :: (nat, unit, nat) ssys)"
    by (rule server_reach.init [of "\<lambda>_. Inr ''1.2.3.4:8888''" "()" DefaultConfig
          "demo_sv\<lparr>activeConn := None\<rparr>"])
      (simp_all add: newRpcServerWithOptions_def server_check_def cfg_check_def initListener_def server_Start_def demo_sv_def)
  moreover have "accept_iter [] demo_sv False (Inr 7) = Returns (demo_sv\<lparr>activeConn := Some {7}, serveWG := 1\<rparr>, Some 7)"
    by (simp add: accept_iter_def demo_sv_def newServerPluginManager_def spm_accept.no_plugins)
  ultimately have "server_reach ((ssys_init demo_sv)\<lparr>sv := demo_sv\<lparr>activeConn := Some {7}, serveWG := 1\<rparr>,
      conns := [7 \<mapsto> \<lparr>reader = Reading, scodec = (1, []), wg = 0\<rparr>]\<rparr> :: (nat, unit, nat) ssys)"
    using server_reach.step [OF _ server_step.accept [where s = "ssys_init demo_sv" and cd = "1 :: nat"]]
    by (force simp: ssys_init_def demo_sv_def DefaultConfig_def codec_of_type_def)
  then show ?thesis by (intro exI, unfold wire_state_def) (auto simp: ssys_init_def)
qed

lemma readRequest_unknown:
  assumes "no_plugins server" "ReadRequestHeader cc c (reqHeap (snd (getRequest (reqs server))) (fst (getRequest (reqs server))))
      = (c', hdr, None)" "CHR ''.'' \<notin> set (req_ServiceMethod hdr)"
  shows "\<exists>server' q r. readRequest cc rf ord server c = Returns (server', fst (ReadRequestBody cc c' None), r)
    \<and> rr_req r = Some q \<and> rr_keepReading r \<and> rr_err r \<noteq> None \<and> reqHeap (reqs server') q = hdr"
  using assms
  by (auto simp: readRequest_def readRequestHeader_def lookup_method_undotted storeRequest_def Let_def split: prod.splits)

lemma readRequest_broken:
  assumes "ReadRequestHeader cc c (reqHeap (snd (getRequest (reqs server))) (fst (getRequest (reqs server))))
      = (c', hdr, Some e)"
  shows "\<exists>server' r. readRequest cc rf ord server c = Returns (server', c', r) \<and> \<not> rr_keepReading r \<and> rr_err r \<noteq> None"
  using assms by (auto simp: readRequest_def readRequestHeader_def Let_def split: prod.splits)

lemma wire_read: "\<exists>s q msg. wire_state s (Busy 0) 0 [0 \<mapsto> \<lparr>j_conn = 7, j_req = q, j_pc = JSend msg None\<rparr>] []"
proof -
  obtain s where s: "wire_state s Reading 1 Map.empty []" using wire_accept by blast
  then have reach: "server_reach s" and c: "conns s 7 = Some \<lparr>reader = Reading, scodec = (1, []), wg = 0\<rparr>"
    and r0: "requests s = []" by (auto simp: wire_state_def)
  obtain hdr where hd: "ReadRequestHeader (logged wire_codec) (1, []) (reqHeap (snd (getRequest (reqs (sv s)))) (fst (getRequest (reqs (sv s)))))
      = ((0, []), hdr, None)" "req_ServiceMethod hdr = ''nope''" "req_Seq hdr = 5"
    by (simp add: logged_wire_codec)
  obtain sv' q r where rd: "readRequest (logged wire_codec) wire_reflect ([], []) (sv s) (1, []) = Returns (sv', (0, []), r)" "rr_req r = Some q"
      "rr_keepReading r" "rr_err r \<noteq> None" "reqHeap (reqs sv') q = hdr"
    using readRequest_unknown [OF wire_plugins [OF reach] hd(1), of wire_reflect "([], [])"] hd(2)
    by (auto simp: logged_wire_codec)
  obtain e where e: "rr_err r = Some e" using rd(4) by blast
  have "server_reach (new_job (set_reader (set_codec (s\<lparr>sv := sv'\<rparr>) 7 (0, [])) 7 (Busy (length (requests s)))) 7 q (JSend (error_text e) None))"
    using server_reach.step [OF reach server_step.read_bad [OF c _ _ e rd(3,2)]] rd(1) by simp
  then show ?thesis using s rd(5) hd(3) r0 by (intro exI, unfold wire_state_def) (auto simp: wire_state_def)
qed

lemma wire_write: "\<exists>s q resp h x. wire_state s (Busy 0) 0 [0 \<mapsto> \<lparr>j_conn = 7, j_req = q, j_pc = JFree resp\<rparr>] [(h, x)]"
proof -
  obtain s q msg where s: "wire_state s (Busy 0) 0 [0 \<mapsto> \<lparr>j_conn = 7, j_req = q, j_pc = JSend msg None\<rparr>] []"
    using wire_read by blast
  then have reach: "server_reach s" and j: "jobs s 0 = Some \<lparr>j_conn = 7, j_req = q, j_pc = JSend msg None\<rparr>"
    by (auto simp: wire_state_def)
  obtain resp x sv' where h: "sendResponse_header (sv s) q None msg = (resp, x, sv')" by (metis prod_cases3)
  let ?s1 = "set_pc (s\<lparr>sv := sv'\<rparr>) 0 (JWrite resp x)" and ?ws = "[(respHeap (resps sv') resp, x)]"
  have r1: "server_reach ?s1" using server_reach.step [OF reach server_step.header [OF j, of msg None resp x sv']] h by simp
  have j1: "jobs ?s1 0 = Some \<lparr>j_conn = 7, j_req = q, j_pc = JWrite resp x\<rparr>" using j by simp
  have c1: "conns ?s1 7 = Some \<lparr>reader = Busy 0, scodec = (0, []), wg = 0\<rparr>" using s by (simp add: wire_state_def)
  have pl: "plugins (sv_plugins sv') = Map.empty" using wire_plugins [OF r1] by (simp add: no_plugins_def)
  obtain sv2 where w: "sendResponse_write (logged wire_codec) ([], []) sv' (0, []) resp x = Returns (sv2, (0, ?ws))"
    using pl by (simp add: sendResponse_write_def spm_pre_write.no_plugins spm_post_write.no_plugins logged_wire_codec)
  have "server_reach (set_pc (set_codec (?s1\<lparr>sv := sv2, answers := answers ?s1 @ [(0, 7, respHeap (resps sv') resp, x)]\<rparr>) 7 (0, ?ws)) 0 (JFree resp))"
    using server_reach.step [OF r1 server_step.put_wire [OF j1, of resp x "\<lparr>reader = Busy 0, scodec = (0, []), wg = 0\<rparr>"
        wire_codec "([], [])" sv2 "(0, ?ws)"]] c1 w by simp
  then show ?thesis using s by (intro exI, unfold wire_state_def) (auto simp: wire_state_def)
qed

lemma wire_served: "\<exists>s h x. wire_state s Served 0 Map.empty [(h, x)]"
proof -
  obtain s q resp h x where s: "wire_state s (Busy 0) 0 [0 \<mapsto> \<lparr>j_conn = 7, j_req = q, j_pc = JFree resp\<rparr>] [(h, x)]"
    using wire_write by blast
  let ?s1 = "set_pc (s\<lparr>sv := sendResponse_free (sv s) resp\<rparr>) 0 JDone"
  have r1: "server_reach ?s1"
    using s server_reach.step [OF _ server_step.free [of s 0 "\<lparr>j_conn = 7, j_req = q, j_pc = JFree resp\<rparr>" resp]]
    by (simp add: wire_state_def)
  let ?s2 = "end_job (?s1\<lparr>sv := server_freeRequest (sv ?s1) q\<rparr>) 0 7"
  have r2: "server_reach ?s2"
    using s server_reach.step [OF r1 server_step.finish [of ?s1 0 "\<lparr>j_conn = 7, j_req = q, j_pc = JDone\<rparr>"]]
    by (simp add: wire_state_def)
  have c2: "conns ?s2 7 = Some \<lparr>reader = Reading, scodec = (0, [(h, x)]), wg = 0\<rparr>" using s by (simp add: wire_state_def)
  have eof: "ReadRequestHeader (logged wire_codec) (0, [(h, x)]) hd = ((0, [(h, x)]), hd, Some EOF)" for hd
    by (simp add: logged_wire_codec)
  obtain sv' r where rd: "readRequest (logged wire_codec) wire_reflect ([], []) (sv ?s2) (0, [(h, x)]) = Returns (sv', (0, [(h, x)]), r)"
      "rr_err r \<noteq> None" "\<not> rr_keepReading r"
    using readRequest_broken [OF eof, of wire_reflect "([], [])" "sv ?s2"] by blast
  let ?s3 = "set_reader (set_codec (?s2\<lparr>sv := sv'\<rparr>) 7 (0, [(h, x)])) 7 Waiting"
  have r3: "server_reach ?s3"
    by (rule server_reach.step [OF r2 server_step.read_end [OF c2 _ _ rd(2,3)]], simp)
      (simp only: conn_state.simps, rule rd(1))
  have c3: "conns ?s3 7 = Some \<lparr>reader = Waiting, scodec = (0, [(h, x)]), wg = 0\<rparr>" using s by (simp add: wire_state_def)
  have "server_reach (set_reader (set_codec ?s3 7 (0, [(h, x)])) 7 Served)"
    by (rule server_reach.step [OF r3 server_step.close [OF c3, of wire_codec "(0, [(h, x)])" None]]) (simp_all add: logged_wire_codec)
  then show ?thesis using s by (intro exI, unfold wire_state_def) (auto simp: wire_state_def)
qed

theorem requests_answered_once_witness:
  "\<exists>s k h x. server_reach (s :: (nat, unit, nat) ssys) \<and> conns s 7 = Some k \<and> snd (scodec k) = [(h, x)] \<and> resp_Seq h = 5"
proof -
  obtain s h x where s: "wire_state s Served 0 Map.empty [(h, x)]" using wire_served by blast
  then obtain i c h' x' where a: "answers s = [(i, c, h', x')]" by (auto simp: wire_state_def length_Suc_conv)
  obtain rq where rq: "requests s = [rq]" "req_Seq (snd rq) = 5" using s by (auto simp: wire_state_def length_Suc_conv)
  have r: "server_reach s" and k: "conns s 7 = Some \<lparr>reader = Served, scodec = (0, [(h, x)]), wg = 0\<rparr>"
    using s by (simp_all add: wire_state_def)
  have "wire (conns s) 7 = [(h, x)]" using k by (simp add: wire_def)
  then have "(h, x) = (h', x')" "resp_Seq h' = 5"
    using requests_answered_once [OF r] a rq by (auto split: if_splits dest: spec [of _ 7])
  with r k show ?thesis by force
qed

theorem served_connection_complete_witness:
  "\<exists>s k. server_reach (s :: (nat, unit, nat) ssys) \<and> conns s 7 = Some k \<and> reader k = Served
     \<and> mset (map (\<lambda>(h, x). resp_Seq h) (snd (scodec k))) = {#5#} \<and> count_list (map fst (answers s)) 0 = 1"
proof -
  obtain s h x where s: "wire_state s Served 0 Map.empty [(h, x)]" using wire_served by blast
  then have reach: "server_reach s" and c: "conns s 7 = Some \<lparr>reader = Served, scodec = (0, [(h, x)]), wg = 0\<rparr>"
    by (auto simp: wire_state_def)
  obtain q where q: "requests s = [(7, q)]" "req_Seq q = 5" using s by (auto simp: wire_state_def length_Suc_conv)
  from served_connection_complete [OF reach c] q reach c show ?thesis by (intro exI [of _ s]) auto
qed

theorem jobs_never_share_headers_witness:
  "\<exists>s j. server_reach (s :: (nat, unit, nat) ssys) \<and> jobs s 0 = Some j \<and> req_Seq (reqHeap (reqs (sv s)) (j_req j)) = 5"
proof -
  obtain s q msg where s: "wire_state s (Busy 0) 0 [0 \<mapsto> \<lparr>j_conn = 7, j_req = q, j_pc = JSend msg None\<rparr>] []"
    using wire_read by blast
  then have reach: "server_reach s" and j: "jobs s 0 = Some \<lparr>j_conn = 7, j_req = q, j_pc = JSend msg None\<rparr>"
    by (auto simp: wire_state_def)
  obtain rq where rq: "requests s = [rq]" "req_Seq (snd rq) = 5" using s by (auto simp: wire_state_def length_Suc_conv)
  from jobs_never_share_headers [OF reach j] rq reach j show ?thesis by (intro exI [of _ s]) auto
qed

end
