(* ===== verification/Registry.thy ===== *)
theory Registry
  imports Plugins Json "HOL-Library.List_Lexorder" "HOL-Library.Char_ord"
begin

text \<open>
  The service registries of \<^verbatim>\<open>src/registry.go\<close> (on a key-value store), \<^verbatim>\<open>src/registry_etcd.go\<close>
  and \<^verbatim>\<open>src/registry_zk.go\<close> (which delegate to it), and \<^verbatim>\<open>src/registry_mem.go\<close>, with their
  registration plugins. The store is the library libkv: its operations are parameters, and
  what is assumed of them is stated by \<open>store_laws\<close> and \<open>list_laws\<close>, on the keys that can hold
  values. A stored value is the JSON
  value its bytes encode, or the error of parsing them.
\<close>

section \<open>Endpoints as JSON\<close>

type_synonym kv_value = "go_error + json"

text \<open>\<^verbatim>\<open>Endpoint.Data\<close>: the metadata only; a map is encoded with its keys in order.\<close>

definition encode_strmap :: "(string \<rightharpoonup> string) option \<Rightarrow> json" where
  "encode_strmap md =
     (case md of
        None \<Rightarrow> JNull
      | Some m \<Rightarrow> JObj (map (\<lambda>k. (coerceUTF8 k, json_string (the (m k)))) (sorted_list_of_set (dom m))))"

definition Endpoint_Data :: "Endpoint \<Rightarrow> kv_value" where
  "Endpoint_Data rs = Inr (encode_strmap (MetaData rs))"

definition zero_Endpoint :: Endpoint where
  "zero_Endpoint = \<lparr>PSM = [], Address = [], ServiceName = [], Path = [], MetaData = None\<rparr>"

text \<open>Decoding into a \<^verbatim>\<open>map[string]string\<close>; an element of another type becomes the empty string.\<close>

fun decode_pairs :: "(string \<times> json) list \<Rightarrow> (string \<rightharpoonup> string) \<Rightarrow> (string \<rightharpoonup> string) \<times> err" where
  "decode_pairs [] m = (m, None)"
| "decode_pairs ((k, j) # ms) m =
     (let (v, e1) = decode_string j []; (m', e2) = decode_pairs ms (m(k \<mapsto> v))
      in (m', case e1 of None \<Rightarrow> e2 | Some e \<Rightarrow> Some e))"

definition decode_strmap :: "json \<Rightarrow> (string \<rightharpoonup> string) option \<Rightarrow> (string \<rightharpoonup> string) option \<times> err" where
  "decode_strmap j old =
     (case j of
        JNull \<Rightarrow> (None, None)
      | JObj ms \<Rightarrow> (let (m, e) = decode_pairs ms (case old of None \<Rightarrow> Map.empty | Some m \<Rightarrow> m) in (Some m, e))
      | _ \<Rightarrow> (old, Some UnmarshalTypeError))"

definition Endpoint_put :: "string \<Rightarrow> json \<Rightarrow> Endpoint \<Rightarrow> Endpoint \<times> err" where
  "Endpoint_put f j r =
     (if f = ''psm'' then (let (s, e) = decode_string j (PSM r) in (r\<lparr>PSM := s\<rparr>, e))
      else if f = ''address'' then (let (s, e) = decode_string j (Address r) in (r\<lparr>Address := s\<rparr>, e))
      else if f = ''service_name'' then (let (s, e) = decode_string j (ServiceName r) in (r\<lparr>ServiceName := s\<rparr>, e))
      else if f = ''path'' then (let (s, e) = decode_string j (Path r) in (r\<lparr>Path := s\<rparr>, e))
      else (let (m, e) = decode_strmap j (MetaData r) in (r\<lparr>MetaData := m\<rparr>, e)))"

definition unmarshal_Endpoint :: "kv_value \<Rightarrow> Endpoint \<times> err" where
  "unmarshal_Endpoint v =
     (case v of
        Inl e \<Rightarrow> (zero_Endpoint, Some e)
      | Inr j \<Rightarrow> decode_struct [''psm'', ''address'', ''service_name'', ''path'', ''MetaData''] Endpoint_put j zero_Endpoint)"

section \<open>The store\<close>

record 'st Store =
  kv_Exists :: "'st \<Rightarrow> string \<Rightarrow> go_error + bool"
  kv_Put :: "'st \<Rightarrow> string \<Rightarrow> kv_value \<Rightarrow> 'st \<times> err"
  kv_Delete :: "'st \<Rightarrow> string \<Rightarrow> 'st \<times> err"
  kv_List :: "'st \<Rightarrow> string \<Rightarrow> go_error + (string \<times> kv_value) list"

text \<open>
  What a store that can be reached holds under a key: nothing, a directory or a value. Two
  spellings of a key that \<open>norm\<close> makes equal name the same key; \<open>below\<close> is its order. A key
  that is a directory, or below a value, cannot hold a value; the others are \<open>leaf_key\<close>s.
\<close>

datatype kv_node = Dir | Value kv_value

definition below :: "(string \<Rightarrow> string) \<Rightarrow> string \<Rightarrow> string \<Rightarrow> bool" where
  "below norm d p \<longleftrightarrow> (\<exists>r. norm p = norm d @ ''/'' @ r)"

definition leaf_key :: "('st \<Rightarrow> string \<rightharpoonup> kv_node) \<Rightarrow> (string \<Rightarrow> string) \<Rightarrow> 'st \<Rightarrow> string \<Rightarrow> bool" where
  "leaf_key view norm st p \<longleftrightarrow> view st p \<noteq> Some Dir \<and> (\<forall>d v. below norm d p \<longrightarrow> view st d \<noteq> Some (Value v))"

text \<open>
  What the library documents of the operations on leaf keys. A put stores; it may make the
  directories above the key. A delete removes a key and reports a missing one; it may remove
  directories above the key. Neither changes anything else. Of other keys nothing is assumed:
  a backend may refuse a value there.
\<close>

definition others_kept ::
  "(string \<rightharpoonup> kv_node) \<Rightarrow> (string \<rightharpoonup> kv_node) \<Rightarrow> (string \<Rightarrow> string) \<Rightarrow> string \<Rightarrow> bool" where
  "others_kept m m' norm p \<longleftrightarrow>
     (\<forall>q. norm q \<noteq> norm p \<longrightarrow> m' q = m q \<or> below norm q p \<and> m q \<in> {None, Some Dir} \<and> m' q \<in> {None, Some Dir})"

definition store_laws ::
  "'st Store \<Rightarrow> ('st \<Rightarrow> string \<rightharpoonup> kv_node) \<Rightarrow> (string \<Rightarrow> string) \<Rightarrow> bool" where
  "store_laws ops view norm \<longleftrightarrow>
     (\<forall>st p q. norm p = norm q \<longrightarrow> view st p = view st q)
     \<and> (\<forall>st p. leaf_key view norm st p \<longrightarrow> kv_Exists ops st p = Inr (view st p \<noteq> None))
     \<and> (\<forall>st p v st' x. leaf_key view norm st p \<longrightarrow> kv_Put ops st p v = (st', x) \<longrightarrow>
          x = None \<and> view st' p = Some (Value v) \<and> others_kept (view st) (view st') norm p)
     \<and> (\<forall>st p st' x. leaf_key view norm st p \<longrightarrow> kv_Delete ops st p = (st', x) \<longrightarrow>
          (x = None \<longleftrightarrow> view st p \<noteq> None) \<and> view st' p = None \<and> others_kept (view st) (view st') norm p)"

text \<open>
  What \<^verbatim>\<open>List\<close> returns on etcd and ZooKeeper: the values directly below a directory, and for a
  directory below it a value that is no JSON text.
\<close>

definition child_value :: "(string \<rightharpoonup> kv_node) \<Rightarrow> string \<Rightarrow> kv_value \<Rightarrow> bool" where
  "child_value m d v \<longleftrightarrow> (\<exists>r. r \<noteq> [] \<and> CHR ''/'' \<notin> set r \<and> m (d @ ''/'' @ r) = Some (Value v))"

definition list_laws :: "'st Store \<Rightarrow> ('st \<Rightarrow> string \<rightharpoonup> kv_node) \<Rightarrow> bool" where
  "list_laws ops view \<longleftrightarrow>
     (\<forall>st d v. child_value (view st) d v \<longrightarrow> (\<exists>ps. kv_List ops st d = Inr ps \<and> v \<in> snd ` set ps))
     \<and> (\<forall>st d ps v. kv_List ops st d = Inr ps \<longrightarrow> v \<in> snd ` set ps \<longrightarrow> child_value (view st) d v \<or> (\<exists>e. v = Inl e))"

section \<open>kvRegistry\<close>

record RegistryConfig =
  rc_RegistryType :: string
  rc_Addrs :: "string list"
  rc_TLS :: "string option"
  rc_ConnectionTimeout :: int
  rc_Bucket :: string
  rc_PersistConnection :: bool
  rc_Username :: string
  rc_Password :: string

record store_Config =
  sc_ClientTLS :: bool
  sc_TLS :: "string option"
  sc_ConnectionTimeout :: int
  sc_Bucket :: string
  sc_PersistConnection :: bool
  sc_Username :: string
  sc_Password :: string

definition WrapKVConfig :: "RegistryConfig \<Rightarrow> store_Config" where
  "WrapKVConfig config =
     \<lparr>sc_ClientTLS = True, sc_TLS = rc_TLS config, sc_ConnectionTimeout = rc_ConnectionTimeout config,
      sc_Bucket = rc_Bucket config, sc_PersistConnection = rc_PersistConnection config,
      sc_Username = rc_Username config, sc_Password = rc_Password config\<rparr>"

definition checkRegistryConfig :: "RegistryConfig \<Rightarrow> err" where
  "checkRegistryConfig config = None"

datatype backend = NoBackend | ETCD | CONSUL | ZK

text \<open>\<open>None\<close> is a nil store and a nil cache.\<close>

record 'st kvRegistry =
  storeEngine :: "'st option"
  kvr_backend :: backend
  servicesCache :: "(string \<rightharpoonup> Endpoint) option"
  rootPath :: string

definition new_kvRegistry :: "'st kvRegistry" where
  "new_kvRegistry = \<lparr>storeEngine = None, kvr_backend = NoBackend, servicesCache = None, rootPath = []\<rparr>"

text \<open>\<^verbatim>\<open>Init\<close>; \<open>newStore\<close> is \<^verbatim>\<open>libkv.NewStore\<close>.\<close>

definition backend_of :: "string \<Rightarrow> (backend \<times> string) option" where
  "backend_of registryType =
     (if registryType = ''etcd'' then Some (ETCD, ServiceRootPath)
      else if registryType = ''consul'' then Some (CONSUL, ConsulServiceRootPath)
      else if registryType = ''zookeeper'' then Some (ZK, ZKServiceRootPath)
      else None)"

definition kv_Init ::
  "(backend \<Rightarrow> string list \<Rightarrow> store_Config \<Rightarrow> go_error + 'st) \<Rightarrow> 'st kvRegistry \<Rightarrow> string \<Rightarrow> RegistryConfig
     \<Rightarrow> 'st kvRegistry \<times> err" where
  "kv_Init newStore kvr registryType config =
     (case backend_of registryType of
        None \<Rightarrow> (kvr, Some ErrUnsupportedRegistrationType)
      | Some (be, root) \<Rightarrow>
          let kvr1 = kvr\<lparr>kvr_backend := be, rootPath := root\<rparr>
          in (case checkRegistryConfig config of
                Some e \<Rightarrow> (kvr1, Some e)
              | None \<Rightarrow>
                  (case newStore be (rc_Addrs config) (WrapKVConfig config) of
                     Inl e \<Rightarrow> (kvr1\<lparr>storeEngine := None\<rparr>, Some e)
                   | Inr st \<Rightarrow> (kvr1\<lparr>storeEngine := Some st, servicesCache := Some Map.empty\<rparr>, None))))"

definition nil_store :: string where
  "nil_store = ''invalid memory address or nil pointer dereference''"

definition kv_Register ::
  "'st Store \<Rightarrow> 'st kvRegistry \<Rightarrow> Endpoint \<Rightarrow> ('st kvRegistry \<times> err) outcome" where
  "kv_Register ops kvr service =
     (let fullPath = rootPath kvr @ Path service
      in case storeEngine kvr of
           None \<Rightarrow> Panics nil_store
         | Some st \<Rightarrow>
             (case kv_Exists ops st fullPath of
                Inl e \<Rightarrow> Returns (kvr, Some e)
              | Inr exists \<Rightarrow>
                  (case servicesCache kvr of
                     None \<Rightarrow> Panics ''assignment to entry in nil map''
                   | Some cache \<Rightarrow>
                       let (st', e) = kv_Put ops st fullPath (Endpoint_Data service)
                       in Returns (kvr\<lparr>servicesCache := Some (cache(fullPath \<mapsto> service)), storeEngine := Some st'\<rparr>, e))))"

definition cached :: "'st kvRegistry \<Rightarrow> string \<rightharpoonup> Endpoint" where
  "cached kvr = (case servicesCache kvr of None \<Rightarrow> Map.empty | Some c \<Rightarrow> c)"

definition kv_DeRegister ::
  "'st Store \<Rightarrow> 'st kvRegistry \<Rightarrow> Endpoint \<Rightarrow> ('st kvRegistry \<times> err) outcome" where
  "kv_DeRegister ops kvr service =
     (let fullPath = rootPath kvr @ Path service
      in if cached kvr fullPath \<noteq> None
         then (case storeEngine kvr of
                 None \<Rightarrow> Panics nil_store
               | Some st \<Rightarrow> (let (st', e) = kv_Delete ops st fullPath in Returns (kvr\<lparr>storeEngine := Some st'\<rparr>, e)))
         else Returns (kvr, None))"

fun delete_all :: "'st Store \<Rightarrow> string list \<Rightarrow> 'st \<Rightarrow> 'st \<times> go_error list" where
  "delete_all ops [] st = (st, [])"
| "delete_all ops (p # ps) st =
     (let (st1, e) = kv_Delete ops st p; (st2, errs) = delete_all ops ps st1
      in (st2, case e of None \<Rightarrow> errs | Some x \<Rightarrow> x # errs))"

text \<open>\<^verbatim>\<open>DeRegisterAll\<close> ranges over the cache in the order \<open>ord\<close>.\<close>

definition kv_DeRegisterAll ::
  "'st Store \<Rightarrow> string list \<Rightarrow> 'st kvRegistry \<Rightarrow> ('st kvRegistry \<times> err) outcome" where
  "kv_DeRegisterAll ops ord kvr =
     (if ord = [] then Returns (kvr, None)
      else (case storeEngine kvr of
              None \<Rightarrow> Panics nil_store
            | Some st \<Rightarrow> (let (st', errs) = delete_all ops ord st
                          in Returns (kvr\<lparr>storeEngine := Some st'\<rparr>, WrapArrayErrs errs))))"

fun unmarshal_all :: "(string \<times> kv_value) list \<Rightarrow> Endpoint list" where
  "unmarshal_all [] = []"
| "unmarshal_all ((p, v) # ps) =
     (case unmarshal_Endpoint v of
        (rs, None) \<Rightarrow> rs # unmarshal_all ps
      | (rs, Some e) \<Rightarrow> unmarshal_all ps)"

definition kv_ListServices :: "'st Store \<Rightarrow> 'st kvRegistry \<Rightarrow> string \<Rightarrow> Endpoint list outcome" where
  "kv_ListServices ops kvr invokePoint =
     (case TransformInvokePointToPath invokePoint of
        Inl e \<Rightarrow> Returns []
      | Inr epPath \<Rightarrow>
          (case storeEngine kvr of
             None \<Rightarrow> Panics nil_store
           | Some st \<Rightarrow>
               (case kv_List ops st (rootPath kvr @ epPath) of
                  Inl e \<Rightarrow> Returns []
                | Inr pairs \<Rightarrow> Returns (unmarshal_all pairs))))"

definition kv_Destroy :: "'st kvRegistry \<Rightarrow> err" where
  "kv_Destroy kvr = None"

subsection \<open>etcdRegistry and zkRegistry\<close>

text \<open>Both hold a \<^verbatim>\<open>kvRegistry\<close> and hand every call to it; the type given to \<^verbatim>\<open>Init\<close> is ignored.\<close>

definition etcd_Init ::
  "(backend \<Rightarrow> string list \<Rightarrow> store_Config \<Rightarrow> go_error + 'st) \<Rightarrow> 'st kvRegistry \<Rightarrow> string \<Rightarrow> RegistryConfig
     \<Rightarrow> 'st kvRegistry \<times> err" where
  "etcd_Init newStore r registryType config = kv_Init newStore r ''etcd'' config"

definition NewEtcdRegistry ::
  "(backend \<Rightarrow> string list \<Rightarrow> store_Config \<Rightarrow> go_error + 'st) \<Rightarrow> RegistryConfig \<Rightarrow> 'st kvRegistry" where
  "NewEtcdRegistry newStore config = fst (etcd_Init newStore new_kvRegistry ''etcd'' config)"

definition etcd_Register :: "'st Store \<Rightarrow> 'st kvRegistry \<Rightarrow> Endpoint \<Rightarrow> ('st kvRegistry \<times> err) outcome" where
  "etcd_Register ops r s = kv_Register ops r s"

definition etcd_DeRegister :: "'st Store \<Rightarrow> 'st kvRegistry \<Rightarrow> Endpoint \<Rightarrow> ('st kvRegistry \<times> err) outcome" where
  "etcd_DeRegister ops r s = kv_DeRegister ops r s"

definition etcd_DeRegisterAll :: "'st Store \<Rightarrow> string list \<Rightarrow> 'st kvRegistry \<Rightarrow> ('st kvRegistry \<times> err) outcome" where
  "etcd_DeRegisterAll ops ord r = kv_DeRegisterAll ops ord r"

definition etcd_ListServices :: "'st Store \<Rightarrow> 'st kvRegistry \<Rightarrow> string \<Rightarrow> Endpoint list outcome" where
  "etcd_ListServices ops r invokePoint = kv_ListServices ops r invokePoint"

definition etcd_Destroy :: "'st kvRegistry \<Rightarrow> err" where
  "etcd_Destroy r = kv_Destroy r"

definition zk_Init ::
  "(backend \<Rightarrow> string list \<Rightarrow> store_Config \<Rightarrow> go_error + 'st) \<Rightarrow> 'st kvRegistry \<Rightarrow> string \<Rightarrow> RegistryConfig
     \<Rightarrow> 'st kvRegistry \<times> err" where
  "zk_Init newStore r registryType config = kv_Init newStore r ''zookeeper'' config"

definition NewZKRegistry ::
  "(backend \<Rightarrow> string list \<Rightarrow> store_Config \<Rightarrow> go_error + 'st) \<Rightarrow> RegistryConfig \<Rightarrow> 'st kvRegistry" where
  "NewZKRegistry newStore config = fst (zk_Init newStore new_kvRegistry ''zookeeper'' config)"

definition zk_Register :: "'st Store \<Rightarrow> 'st kvRegistry \<Rightarrow> Endpoint \<Rightarrow> ('st kvRegistry \<times> err) outcome" where
  "zk_Register ops r s = kv_Register ops r s"

definition zk_DeRegister :: "'st Store \<Rightarrow> 'st kvRegistry \<Rightarrow> Endpoint \<Rightarrow> ('st kvRegistry \<times> err) outcome" where
  "zk_DeRegister ops r s = kv_DeRegister ops r s"

definition zk_DeRegisterAll :: "'st Store \<Rightarrow> string list \<Rightarrow> 'st kvRegistry \<Rightarrow> ('st kvRegistry \<times> err) outcome" where
  "zk_DeRegisterAll ops ord r = kv_DeRegisterAll ops ord r"

definition zk_ListServices :: "'st Store \<Rightarrow> 'st kvRegistry \<Rightarrow> string \<Rightarrow> Endpoint list outcome" where
  "zk_ListServices ops r invokePoint = kv_ListServices ops r invokePoint"

definition zk_Destroy :: "'st kvRegistry \<Rightarrow> err" where
  "zk_Destroy r = kv_Destroy r"

section \<open>memoryRegistry\<close>

record memoryRegistry =
  mem_cache :: "(string \<rightharpoonup> Endpoint) option"

definition NewMemoryRegistry :: memoryRegistry where
  "NewMemoryRegistry = \<lparr>mem_cache = Some Map.empty\<rparr>"

definition mem_Init :: "memoryRegistry \<Rightarrow> string \<Rightarrow> RegistryConfig \<Rightarrow> memoryRegistry \<times> err" where
  "mem_Init r registryType config = (r\<lparr>mem_cache := Some Map.empty\<rparr>, None)"

definition mem_Destroy :: "memoryRegistry \<Rightarrow> memoryRegistry \<times> err" where
  "mem_Destroy r = (r\<lparr>mem_cache := None\<rparr>, None)"

definition mem_Register :: "memoryRegistry \<Rightarrow> Endpoint \<Rightarrow> (memoryRegistry \<times> err) outcome" where
  "mem_Register r s =
     (case mem_cache r of
        None \<Rightarrow> Panics ''assignment to entry in nil map''
      | Some c \<Rightarrow> Returns (r\<lparr>mem_cache := Some (c(Path s \<mapsto> s))\<rparr>, None))"

definition mem_DeRegister :: "memoryRegistry \<Rightarrow> Endpoint \<Rightarrow> (memoryRegistry \<times> err) outcome" where
  "mem_DeRegister r s = Returns (r\<lparr>mem_cache := map_option (\<lambda>c. c(Path s := None)) (mem_cache r)\<rparr>, None)"

definition mem_DeRegisterAll :: "memoryRegistry \<Rightarrow> (memoryRegistry \<times> err) outcome" where
  "mem_DeRegisterAll r = Returns (r\<lparr>mem_cache := Some Map.empty\<rparr>, None)"

definition mem_ListServices :: "string list \<Rightarrow> memoryRegistry \<Rightarrow> string \<Rightarrow> Endpoint list" where
  "mem_ListServices ord r invokePoint =
     (case mem_cache r of
        None \<Rightarrow> []
      | Some c \<Rightarrow> filter (\<lambda>v. strings_Contains (Path v) invokePoint) (range_values c ord))"

section \<open>The registration plugins\<close>

text \<open>The three plugin types have the same methods; \<open>'r\<close> is the registry they hold.\<close>

record 'r registrationPlugin =
  rgp_registry :: 'r
  rgp_disabled :: bool

definition mem_plugin_Name :: string where "mem_plugin_Name = ''_plugin_service_registration_mem''"
definition etcd_plugin_Name :: string where "etcd_plugin_Name = ''_plugin_service_registration_etcd''"
definition zk_plugin_Name :: string where "zk_plugin_Name = ''_plugin_service_registration_zk''"

definition plugin_Type :: PluginType where
  "plugin_Type = ServiceRegistrationPluginType"

definition plugin_IsDisabled :: "'r registrationPlugin \<Rightarrow> bool" where
  "plugin_IsDisabled r = rgp_disabled r"

definition plugin_SetDisable :: "'r registrationPlugin \<Rightarrow> bool \<Rightarrow> 'r registrationPlugin" where
  "plugin_SetDisable r d = r\<lparr>rgp_disabled := d\<rparr>"

definition plugin_call ::
  "('r \<Rightarrow> Endpoint \<Rightarrow> ('r \<times> err) outcome) \<Rightarrow> 'r registrationPlugin \<Rightarrow> Endpoint \<Rightarrow> ('r registrationPlugin \<times> err) outcome" where
  "plugin_call f r s =
     (case f (rgp_registry r) s of
        Returns (x, e) \<Rightarrow> Returns (r\<lparr>rgp_registry := x\<rparr>, e) | Panics m \<Rightarrow> Panics m | Blocks \<Rightarrow> Blocks)"

definition mem_plugin_RegisterService ::
  "memoryRegistry registrationPlugin \<Rightarrow> Endpoint \<Rightarrow> (memoryRegistry registrationPlugin \<times> err) outcome" where
  "mem_plugin_RegisterService = plugin_call mem_Register"

definition mem_plugin_DeRegisterService ::
  "memoryRegistry registrationPlugin \<Rightarrow> Endpoint \<Rightarrow> (memoryRegistry registrationPlugin \<times> err) outcome" where
  "mem_plugin_DeRegisterService = plugin_call mem_DeRegister"

definition etcd_plugin_RegisterService ::
  "'st Store \<Rightarrow> 'st kvRegistry registrationPlugin \<Rightarrow> Endpoint \<Rightarrow> ('st kvRegistry registrationPlugin \<times> err) outcome" where
  "etcd_plugin_RegisterService ops = plugin_call (etcd_Register ops)"

definition etcd_plugin_DeRegisterService ::
  "'st Store \<Rightarrow> 'st kvRegistry registrationPlugin \<Rightarrow> Endpoint \<Rightarrow> ('st kvRegistry registrationPlugin \<times> err) outcome" where
  "etcd_plugin_DeRegisterService ops = plugin_call (etcd_DeRegister ops)"

definition zk_plugin_RegisterService ::
  "'st Store \<Rightarrow> 'st kvRegistry registrationPlugin \<Rightarrow> Endpoint \<Rightarrow> ('st kvRegistry registrationPlugin \<times> err) outcome" where
  "zk_plugin_RegisterService ops = plugin_call (zk_Register ops)"

definition zk_plugin_DeRegisterService ::
  "'st Store \<Rightarrow> 'st kvRegistry registrationPlugin \<Rightarrow> Endpoint \<Rightarrow> ('st kvRegistry registrationPlugin \<times> err) outcome" where
  "zk_plugin_DeRegisterService ops = plugin_call (zk_DeRegister ops)"

section \<open>The interface\<close>

text \<open>
  What the registries share: which endpoints are registered now. \<open>usable\<close> is the state
  between \<^verbatim>\<open>Init\<close> and \<^verbatim>\<open>Destroy\<close>, \<open>admits\<close> the paths that can be told apart there.
\<close>

datatype reg_op = OpRegister Endpoint | OpDeRegister Endpoint | OpDeRegisterAll

fun live_after :: "(string \<rightharpoonup> Endpoint) \<Rightarrow> reg_op list \<Rightarrow> (string \<rightharpoonup> Endpoint)" where
  "live_after m [] = m"
| "live_after m (OpRegister e # os) = live_after (m(Path e \<mapsto> e)) os"
| "live_after m (OpDeRegister e # os) = live_after (m(Path e := None)) os"
| "live_after m (OpDeRegisterAll # os) = live_after Map.empty os"

fun op_paths :: "reg_op list \<Rightarrow> string list" where
  "op_paths [] = []"
| "op_paths (OpRegister e # os) = Path e # op_paths os"
| "op_paths (OpDeRegister e # os) = Path e # op_paths os"
| "op_paths (OpDeRegisterAll # os) = op_paths os"

text \<open>A client that makes calls one after the other and ignores their errors.\<close>

fun reg_run ::
  "('s \<Rightarrow> Endpoint \<Rightarrow> ('s \<times> err) outcome) \<Rightarrow> ('s \<Rightarrow> Endpoint \<Rightarrow> ('s \<times> err) outcome)
     \<Rightarrow> ('s \<Rightarrow> ('s \<times> err) outcome) \<Rightarrow> reg_op list \<Rightarrow> 's \<Rightarrow> 's outcome" where
  "reg_run r d a [] s = Returns s"
| "reg_run r d a (op # os) s =
     (case (case op of OpRegister e \<Rightarrow> r s e | OpDeRegister e \<Rightarrow> d s e | OpDeRegisterAll \<Rightarrow> a s) of
        Returns (s', _) \<Rightarrow> reg_run r d a os s' | Panics m \<Rightarrow> Panics m | Blocks \<Rightarrow> Blocks)"

locale service_registry =
  fixes usable :: "'s \<Rightarrow> bool"
    and admits :: "'s \<Rightarrow> string \<Rightarrow> bool"
    and live :: "'s \<Rightarrow> string \<rightharpoonup> Endpoint"
    and r_Register r_DeRegister :: "'s \<Rightarrow> Endpoint \<Rightarrow> ('s \<times> err) outcome"
    and r_DeRegisterAll :: "'s \<Rightarrow> ('s \<times> err) outcome"
  assumes Register_live: "usable s \<Longrightarrow> admits s (Path e) \<Longrightarrow>
      \<exists>s'. r_Register s e = Returns (s', None) \<and> usable s' \<and> admits s' = admits s \<and> live s' = (live s)(Path e \<mapsto> e)"
    and DeRegister_live: "usable s \<Longrightarrow> admits s (Path e) \<Longrightarrow>
      \<exists>s' x. r_DeRegister s e = Returns (s', x) \<and> usable s' \<and> admits s' = admits s
        \<and> live s' = (live s)(Path e := None) \<and> (live s (Path e) \<noteq> None \<longrightarrow> x = None)"
    and DeRegisterAll_live: "usable s \<Longrightarrow>
      \<exists>s' x. r_DeRegisterAll s = Returns (s', x) \<and> usable s' \<and> admits s' = admits s \<and> live s' = Map.empty"
begin

lemma run_live:
  assumes "usable s" "list_all (admits s) (op_paths os)"
  shows "\<exists>s'. reg_run r_Register r_DeRegister r_DeRegisterAll os s = Returns s' \<and> usable s'
    \<and> live s' = live_after (live s) os"
  using assms
proof (induction os arbitrary: s)
  case (Cons op os)
  then show ?case
  proof (cases op)
    case (OpRegister e)
    with Cons.prems Register_live [of s e] obtain s' where
      "r_Register s e = Returns (s', None)" "usable s'" "admits s' = admits s" "live s' = (live s)(Path e \<mapsto> e)"
      by auto
    with OpRegister Cons.prems Cons.IH [of s'] show ?thesis by (simp add: fun_upd_def)
  next
    case (OpDeRegister e)
    with Cons.prems DeRegister_live [of s e] obtain s' x where
      "r_DeRegister s e = Returns (s', x)" "usable s'" "admits s' = admits s" "live s' = (live s)(Path e := None)"
      by auto
    with OpDeRegister Cons.prems Cons.IH [of s'] show ?thesis by (simp add: fun_upd_def)
  next
    case OpDeRegisterAll
    with Cons.prems DeRegisterAll_live [of s] obtain s' x where
      "r_DeRegisterAll s = Returns (s', x)" "usable s'" "admits s' = admits s" "live s' = Map.empty"
      by auto
    with OpDeRegisterAll Cons.prems Cons.IH [of s'] show ?thesis by simp
  qed
qed simp

lemma register_deregister:
  assumes "usable s" "admits s (Path e)"
  shows "\<exists>s1 s2. r_Register s e = Returns (s1, None) \<and> r_DeRegister s1 e = Returns (s2, None)
    \<and> live s2 = (live s)(Path e := None)"
proof -
  obtain s1 where s1: "r_Register s e = Returns (s1, None)" "usable s1" "admits s1 = admits s"
      "live s1 = (live s)(Path e \<mapsto> e)"
    using Register_live [OF assms] by blast
  then show ?thesis using DeRegister_live [of s1 e] assms(2) by auto
qed

end

subsection \<open>The registry in memory\<close>

definition mem_live :: "memoryRegistry \<Rightarrow> string \<rightharpoonup> Endpoint" where
  "mem_live r = (case mem_cache r of None \<Rightarrow> Map.empty | Some c \<Rightarrow> c)"

interpretation mr: service_registry "\<lambda>r. mem_cache r \<noteq> None" "\<lambda>_ _. True" mem_live
  mem_Register mem_DeRegister mem_DeRegisterAll
  by unfold_locales
    (auto simp: mem_live_def mem_Register_def mem_DeRegister_def mem_DeRegisterAll_def split: option.splits)

text \<open>
  C24. The registry in memory after any calls of \<^verbatim>\<open>Register\<close>, \<^verbatim>\<open>DeRegister\<close> and
  \<^verbatim>\<open>DeRegisterAll\<close>: no call panics, and \<^verbatim>\<open>ListServices\<close> has, in whatever order it visits the
  map, just the endpoints registered last for their path and not removed since whose path
  contains the text asked for.
\<close>

theorem mem_registry_lists_registered:
  assumes "range_order (live_after Map.empty os) ord"
  shows "\<exists>r. reg_run mem_Register mem_DeRegister mem_DeRegisterAll os NewMemoryRegistry = Returns r
    \<and> set (mem_ListServices ord r ip) = {e \<in> ran (live_after Map.empty os). strings_Contains (Path e) ip}"
proof -
  have "mem_cache NewMemoryRegistry \<noteq> None" "list_all (\<lambda>_. True) (op_paths os)"
    by (simp_all add: NewMemoryRegistry_def list_all_iff)
  from mr.run_live [OF this] obtain r where
    r: "reg_run mem_Register mem_DeRegister mem_DeRegisterAll os NewMemoryRegistry = Returns r"
      "mem_cache r \<noteq> None" "mem_live r = live_after (mem_live NewMemoryRegistry) os"
    by (elim exE conjE) (rule that)
  have m: "mem_cache r = Some (live_after Map.empty os)"
    using r(2,3) by (cases "mem_cache r") (simp_all add: mem_live_def NewMemoryRegistry_def)
  have "mem_ListServices ord r ip
      = filter (\<lambda>v. strings_Contains (Path v) ip) (range_values (live_after Map.empty os) ord)"
    by (simp only: mem_ListServices_def m option.case)
  then show ?thesis using r(1) set_range_values [OF assms] by simp
qed

definition demo_ep :: Endpoint where
  "demo_ep = \<lparr>PSM = ''a.b.c'', Address = ''h:1'', ServiceName = ''calc'', Path = ''/a.b.c/calc/h:1'', MetaData = None\<rparr>"

definition demo_ep2 :: Endpoint where
  "demo_ep2 = demo_ep\<lparr>Address := ''h:2'', Path := ''/a.b.c/calc/h:2''\<rparr>"

theorem mem_registry_lists_registered_witness:
  "\<exists>r. reg_run mem_Register mem_DeRegister mem_DeRegisterAll
        [OpRegister demo_ep, OpRegister demo_ep2, OpDeRegister demo_ep] NewMemoryRegistry = Returns r
    \<and> set (mem_ListServices [Path demo_ep2] r ''calc'') = {demo_ep2}"
proof -
  have "Path demo_ep \<noteq> Path demo_ep2" "strings_Contains (Path demo_ep2) ''calc''"
    by (simp_all add: demo_ep_def demo_ep2_def)
  then have l: "live_after Map.empty [OpRegister demo_ep, OpRegister demo_ep2, OpDeRegister demo_ep]
      = [Path demo_ep2 \<mapsto> demo_ep2]" and c: "strings_Contains (Path demo_ep2) ''calc''"
    by (auto simp: fun_eq_iff)
  have "range_order [Path demo_ep2 \<mapsto> demo_ep2] [Path demo_ep2]" by (simp add: range_order_def)
  moreover have "{e \<in> ran [Path demo_ep2 \<mapsto> demo_ep2]. strings_Contains (Path e) ''calc''} = {demo_ep2}"
    using c by auto
  ultimately show ?thesis
    using mem_registry_lists_registered
      [of "[OpRegister demo_ep, OpRegister demo_ep2, OpDeRegister demo_ep]" "[Path demo_ep2]" "''calc''"]
    unfolding l by simp
qed

text \<open>
  A registry in memory must not be used after \<^verbatim>\<open>Destroy\<close> until it is initialised again:
  \<^verbatim>\<open>Register\<close> panics for every endpoint, while \<^verbatim>\<open>ListServices\<close> is empty and \<^verbatim>\<open>Init\<close>
  or \<^verbatim>\<open>DeRegisterAll\<close> make it usable.
\<close>

lemma mem_register_after_destroy:
  "mem_Register (fst (mem_Destroy r)) e = Panics ''assignment to entry in nil map''
    \<and> mem_ListServices ord (fst (mem_Destroy r)) ip = []
    \<and> (\<exists>r'. mem_DeRegisterAll (fst (mem_Destroy r)) = Returns (r', None)
        \<and> mem_Register r' e = mem_Register (fst (mem_Init r ty cfg)) e
        \<and> mem_Register r' e = Returns (\<lparr>mem_cache = Some [Path e \<mapsto> e]\<rparr>, None))"
  by (simp add: mem_Register_def mem_Destroy_def mem_ListServices_def mem_DeRegisterAll_def mem_Init_def)

subsection \<open>The registry on a store\<close>

text \<open>
  The store's operations with what is assumed of them, the order in which \<^verbatim>\<open>range\<close> visits
  the cache, and a set of paths that name different keys, none below another.
\<close>

record 'st kv_env =
  env_ops :: "'st Store"
  env_view :: "'st \<Rightarrow> string \<rightharpoonup> kv_node"
  env_norm :: "string \<Rightarrow> string"
  env_ord :: "'st kvRegistry \<Rightarrow> string list"
  env_paths :: "string set"

definition env_laws :: "'st kv_env \<Rightarrow> string \<Rightarrow> bool" where
  "env_laws env root \<longleftrightarrow>
     store_laws (env_ops env) (env_view env) (env_norm env)
     \<and> inj_on (\<lambda>p. env_norm env (root @ p)) (env_paths env)
     \<and> (\<forall>p \<in> env_paths env. \<forall>q \<in> env_paths env. \<not> below (env_norm env) (root @ p) (root @ q))
     \<and> (\<forall>r. finite (dom (cached r)) \<longrightarrow> range_order (cached r) (env_ord env r))"

text \<open>The registry's keys can hold values: none is a directory of the store or below a value.\<close>

definition keys_free :: "'st kv_env \<Rightarrow> 'st kvRegistry \<Rightarrow> bool" where
  "keys_free env r \<longleftrightarrow>
     (\<forall>st. storeEngine r = Some st \<longrightarrow> (\<forall>p \<in> env_paths env. leaf_key (env_view env) (env_norm env) st (rootPath r @ p)))"

definition kv_view :: "'st kv_env \<Rightarrow> 'st kvRegistry \<Rightarrow> string \<rightharpoonup> kv_node" where
  "kv_view env kvr = (case storeEngine kvr of None \<Rightarrow> Map.empty | Some st \<Rightarrow> env_view env st)"

definition kv_live :: "'st kv_env \<times> 'st kvRegistry \<Rightarrow> string \<rightharpoonup> Endpoint" where
  "kv_live s = (\<lambda>p. if kv_view (fst s) (snd s) (rootPath (snd s) @ p) \<noteq> None
                    then cached (snd s) (rootPath (snd s) @ p) else None)"

definition kv_usable :: "'st kv_env \<times> 'st kvRegistry \<Rightarrow> bool" where
  "kv_usable s \<longleftrightarrow>
     env_laws (fst s) (rootPath (snd s)) \<and> storeEngine (snd s) \<noteq> None \<and> servicesCache (snd s) \<noteq> None
     \<and> finite (dom (cached (snd s))) \<and> keys_free (fst s) (snd s)
     \<and> dom (cached (snd s)) \<subseteq> (\<lambda>p. rootPath (snd s) @ p) ` env_paths (fst s)
     \<and> (\<forall>p e. kv_live s p = Some e
          \<longrightarrow> kv_view (fst s) (snd s) (rootPath (snd s) @ p) = Some (Value (Endpoint_Data e)))"

definition in_env ::
  "('st kvRegistry \<times> err) outcome \<Rightarrow> 'st kv_env \<Rightarrow> (('st kv_env \<times> 'st kvRegistry) \<times> err) outcome" where
  "in_env x env = (case x of Returns (r, e) \<Rightarrow> Returns ((env, r), e) | Panics m \<Rightarrow> Panics m | Blocks \<Rightarrow> Blocks)"

definition kvs_Register where
  "kvs_Register s e = in_env (kv_Register (env_ops (fst s)) (snd s) e) (fst s)"

definition kvs_DeRegister where
  "kvs_DeRegister s e = in_env (kv_DeRegister (env_ops (fst s)) (snd s) e) (fst s)"

definition kvs_DeRegisterAll where
  "kvs_DeRegisterAll s = in_env (kv_DeRegisterAll (env_ops (fst s)) (env_ord (fst s) (snd s)) (snd s)) (fst s)"

lemma store_lawsD:
  assumes "store_laws ops view norm"
  shows "norm p = norm q \<Longrightarrow> view st p = view st q"
    and "leaf_key view norm st p \<Longrightarrow> kv_Exists ops st p = Inr (view st p \<noteq> None)"
    and "kv_Put ops st p v = (st1, x) \<Longrightarrow> leaf_key view norm st p
      \<Longrightarrow> x = None \<and> view st1 p = Some (Value v) \<and> others_kept (view st) (view st1) norm p"
    and "kv_Delete ops st p = (st2, y) \<Longrightarrow> leaf_key view norm st p
      \<Longrightarrow> (y = None \<longleftrightarrow> view st p \<noteq> None) \<and> view st2 p = None \<and> others_kept (view st) (view st2) norm p"
  using assms unfolding store_laws_def by blast+

text \<open>An operation on one leaf key leaves the others what they are, and leaf keys.\<close>

lemma others_keptD:
  assumes "others_kept m m' norm p" "norm q \<noteq> norm p"
  shows "\<not> below norm q p \<Longrightarrow> m' q = m q" and "m' q = Some (Value v) \<longleftrightarrow> m q = Some (Value v)"
  using assms unfolding others_kept_def by (blast, force)

lemma leaf_key_kept:
  assumes "store_laws ops view norm" "others_kept (view st) (view st') norm p" "view st' p \<noteq> Some Dir"
    and "leaf_key view norm st q" "\<not> below norm q p" "\<not> below norm p q"
  shows "leaf_key view norm st' q"
proof -
  have "view st' q \<noteq> Some Dir"
  proof (cases "norm q = norm p")
    case True
    then show ?thesis using store_lawsD(1) [OF assms(1) True, of st'] assms(3) by simp
  next
    case False
    then show ?thesis using others_keptD(1) [OF assms(2) False assms(5)] assms(4) by (simp add: leaf_key_def)
  qed
  moreover have "view st' d \<noteq> Some (Value v)" if "below norm d q" for d v
  proof -
    have "norm d \<noteq> norm p" using that assms(6) by (auto simp: below_def)
    then show ?thesis using others_keptD(2) [OF assms(2)] that assms(4) by (simp add: leaf_key_def)
  qed
  ultimately show ?thesis by (simp add: leaf_key_def)
qed

text \<open>Deleting keys of a set of leaf keys, none below another.\<close>

lemma delete_all_leaves:
  assumes laws: "store_laws ops view norm" and K: "\<forall>p \<in> K. \<forall>q \<in> K. \<not> below norm p q"
  shows "set ps \<subseteq> K \<Longrightarrow> \<forall>q \<in> K. leaf_key view norm st q \<Longrightarrow>
    (\<forall>q \<in> K. leaf_key view norm (fst (delete_all ops ps st)) q)
    \<and> (\<forall>q \<in> K. view st q = None \<or> q \<in> set ps \<longrightarrow> view (fst (delete_all ops ps st)) q = None)"
proof (induction ps arbitrary: st)
  case (Cons p ps)
  obtain st1 e where d: "kv_Delete ops st p = (st1, e)" by force
  have p: "p \<in> K" "leaf_key view norm st p" using Cons.prems by auto
  note law = store_lawsD(4) [OF laws d p(2)]
  have leaf: "\<forall>q \<in> K. leaf_key view norm st1 q"
    using leaf_key_kept [OF laws conjunct2 [OF conjunct2 [OF law]]] law Cons.prems(2) K p(1) by simp
  have gone: "view st1 q = None" if "q \<in> K" "view st q = None \<or> q = p" for q
  proof (cases "norm q = norm p")
    case True
    then show ?thesis using store_lawsD(1) [OF laws True, of st1] law by simp
  next
    case False
    then show ?thesis using others_keptD(1) [of "view st" "view st1" norm p q] law that K p(1) by auto
  qed
  have "fst (delete_all ops (p # ps) st) = fst (delete_all ops ps st1)" using d by (simp add: case_prod_beta)
  then show ?case using Cons.IH [OF _ leaf] Cons.prems(1) gone by auto
qed simp

text \<open>What a call for the path \<open>p0\<close> leaves of the other paths.\<close>

lemma kv_frame:
  assumes "env_laws env (rootPath r)" "p0 \<in> env_paths env" "dom (cached r) \<subseteq> (\<lambda>p. rootPath r @ p) ` env_paths env"
    and "storeEngine r = Some st" "storeEngine r' = Some st'" "rootPath r' = rootPath r"
    and "others_kept (env_view env st) (env_view env st') (env_norm env) (rootPath r @ p0)"
    and "cached r' (rootPath r @ p) = cached r (rootPath r @ p)" "p \<noteq> p0"
  shows "kv_live (env, r') p = kv_live (env, r) p"
    and "kv_live (env, r) p \<noteq> None \<Longrightarrow> kv_view env r' (rootPath r @ p) = kv_view env r (rootPath r @ p)"
proof -
  have v: "kv_view env r' (rootPath r @ p) = kv_view env r (rootPath r @ p)" if "cached r (rootPath r @ p) \<noteq> None"
  proof -
    have p: "p \<in> env_paths env" using that assms(3) by auto
    then have "env_norm env (rootPath r @ p) \<noteq> env_norm env (rootPath r @ p0)"
      using assms(1,2,9) by (auto simp: env_laws_def dest: inj_onD)
    moreover have "\<not> below (env_norm env) (rootPath r @ p) (rootPath r @ p0)"
      using assms(1,2) p by (simp add: env_laws_def)
    ultimately show ?thesis using others_keptD(1) [OF assms(7)] assms(4,5) by (simp add: kv_view_def)
  qed
  show "kv_live (env, r') p = kv_live (env, r) p"
  proof (cases "cached r (rootPath r @ p)")
    case None
    then show ?thesis using assms(6,8) by (simp add: kv_live_def)
  next
    case (Some e)
    then show ?thesis using assms(6,8) v by (simp add: kv_live_def)
  qed
  show "kv_live (env, r) p \<noteq> None \<Longrightarrow> kv_view env r' (rootPath r @ p) = kv_view env r (rootPath r @ p)"
    using v by (simp add: kv_live_def split: if_splits)
qed

lemma keys_free_kept:
  assumes "env_laws env (rootPath r)" "keys_free env r" "storeEngine r = Some st" "p0 \<in> env_paths env"
    and "storeEngine r' = Some st'" "rootPath r' = rootPath r" "env_view env st' (rootPath r @ p0) \<noteq> Some Dir"
    and "others_kept (env_view env st) (env_view env st') (env_norm env) (rootPath r @ p0)"
  shows "keys_free env r'"
  unfolding keys_free_def
proof (intro allI impI ballI)
  fix st2 q assume s2: "storeEngine r' = Some st2" and q: "q \<in> env_paths env"
  have "store_laws (env_ops env) (env_view env) (env_norm env)" using assms(1) by (simp add: env_laws_def)
  from leaf_key_kept [OF this assms(8,7), of "rootPath r @ q"] assms q s2
  show "leaf_key (env_view env) (env_norm env) st2 (rootPath r' @ q)"
    by (simp add: env_laws_def keys_free_def)
qed

lemma kv_usableD:
  assumes "kv_usable (env, r)" "p \<in> env_paths env"
  obtains st c where "storeEngine r = Some st" "servicesCache r = Some c" "cached r = c"
    "store_laws (env_ops env) (env_view env) (env_norm env)" "env_laws env (rootPath r)" "keys_free env r"
    "leaf_key (env_view env) (env_norm env) st (rootPath r @ p)"
    "dom (cached r) \<subseteq> (\<lambda>p. rootPath r @ p) ` env_paths env"
  using assms that by (auto simp: kv_usable_def env_laws_def keys_free_def cached_def)

lemma kvs_Register_live:
  assumes u: "kv_usable s" and P: "Path e \<in> env_paths (fst s)"
  shows "\<exists>s'. kvs_Register s e = Returns (s', None) \<and> kv_usable s' \<and> fst s' = fst s \<and> kv_live s' = (kv_live s)(Path e \<mapsto> e)"
proof -
  obtain env r where s: "s = (env, r)" by (cases s)
  let ?f = "rootPath r @ Path e"
  obtain st c where r: "storeEngine r = Some st" "servicesCache r = Some c"
    and laws: "store_laws (env_ops env) (env_view env) (env_norm env)" "env_laws env (rootPath r)" "keys_free env r"
    and leaf: "leaf_key (env_view env) (env_norm env) st ?f" and dom: "dom (cached r) \<subseteq> (\<lambda>p. rootPath r @ p) ` env_paths env"
    using u P by (auto simp: s elim: kv_usableD)
  obtain st' x where put: "kv_Put (env_ops env) st ?f (Endpoint_Data e) = (st', x)" by force
  note st' = store_lawsD(3) [OF laws(1) put leaf]
  define r' where "r' = r\<lparr>servicesCache := Some (c(?f \<mapsto> e)), storeEngine := Some st'\<rparr>"
  have r': "storeEngine r' = Some st'" "rootPath r' = rootPath r" "cached r' = (cached r)(?f \<mapsto> e)"
    using r by (simp_all add: r'_def cached_def)
  have ret: "kvs_Register s e = Returns ((env, r'), None)"
    using r put st' by (simp add: kvs_Register_def kv_Register_def in_env_def s r'_def store_lawsD(2) [OF laws(1) leaf])
  have fr: "kv_live (env, r') p = kv_live (env, r) p"
       "kv_live (env, r) p \<noteq> None \<Longrightarrow> kv_view env r' (rootPath r @ p) = kv_view env r (rootPath r @ p)"
    if "p \<noteq> Path e" for p
    using kv_frame [OF laws(2) _ dom r(1) r'(1,2), of "Path e" p] P st' r'(3) that by (simp_all add: s)
  have own: "kv_view env r' ?f = Some (Value (Endpoint_Data e))" "kv_live (env, r') (Path e) = Some e"
    using st' r' by (simp_all add: kv_view_def kv_live_def)
  have live: "kv_live (env, r') = (kv_live (env, r))(Path e \<mapsto> e)"
    using own(2) fr(1) by (simp add: fun_eq_iff)
  have "kv_view env r' (rootPath r @ p) = Some (Value (Endpoint_Data e'))" if "kv_live (env, r') p = Some e'" for p e'
    using that own fr [of p] u by (cases "p = Path e") (simp_all add: kv_usable_def s)
  moreover have "keys_free env r'"
    by (rule keys_free_kept [OF laws(2,3) r(1) _ r'(1,2), of "Path e"]) (use st' P in \<open>simp_all add: s\<close>)
  ultimately have "kv_usable (env, r')" using u P r' by (auto simp: kv_usable_def s r'_def)
  with ret live s show ?thesis by auto
qed

lemma kvs_DeRegister_live:
  assumes u: "kv_usable s" and P: "Path e \<in> env_paths (fst s)"
  shows "\<exists>s' x. kvs_DeRegister s e = Returns (s', x) \<and> kv_usable s' \<and> fst s' = fst s
    \<and> kv_live s' = (kv_live s)(Path e := None)
    \<and> (x = None \<longleftrightarrow> kv_live s (Path e) \<noteq> None \<or> cached (snd s) (rootPath (snd s) @ Path e) = None)"
proof -
  obtain env r where s: "s = (env, r)" by (cases s)
  let ?f = "rootPath r @ Path e"
  obtain st c where r: "storeEngine r = Some st" "servicesCache r = Some c"
    and laws: "store_laws (env_ops env) (env_view env) (env_norm env)" "env_laws env (rootPath r)" "keys_free env r"
    and leaf: "leaf_key (env_view env) (env_norm env) st ?f" and dom: "dom (cached r) \<subseteq> (\<lambda>p. rootPath r @ p) ` env_paths env"
    using u P by (auto simp: s elim: kv_usableD)
  show ?thesis
  proof (cases "cached r ?f")
    case None
    then have "kvs_DeRegister s e = Returns (s, None)" "kv_live s (Path e) = None"
      by (simp_all add: kvs_DeRegister_def kv_DeRegister_def in_env_def kv_live_def s)
    with u None s show ?thesis by (metis fun_upd_triv snd_conv)
  next
    case (Some e0)
    obtain st' x where del: "kv_Delete (env_ops env) st ?f = (st', x)" by force
    note st' = store_lawsD(4) [OF laws(1) del leaf]
    define r' where "r' = r\<lparr>storeEngine := Some st'\<rparr>"
    have r': "storeEngine r' = Some st'" "rootPath r' = rootPath r" "cached r' = cached r"
      by (simp_all add: r'_def cached_def)
    have ret: "kvs_DeRegister s e = Returns ((env, r'), x)"
      using r del Some by (simp add: kvs_DeRegister_def kv_DeRegister_def in_env_def s r'_def)
    have fr: "kv_live (env, r') p = kv_live (env, r) p"
         "kv_live (env, r) p \<noteq> None \<Longrightarrow> kv_view env r' (rootPath r @ p) = kv_view env r (rootPath r @ p)"
      if "p \<noteq> Path e" for p
      using kv_frame [OF laws(2) _ dom r(1) r'(1,2), of "Path e" p] P st' r'(3) that by (simp_all add: s)
    have own: "kv_live (env, r') (Path e) = None" using st' r' by (simp add: kv_view_def kv_live_def)
    have live: "kv_live (env, r') = (kv_live (env, r))(Path e := None)"
      using own fr(1) by (simp add: fun_eq_iff)
    have "kv_view env r' (rootPath r @ p) = Some (Value (Endpoint_Data e'))" if "kv_live (env, r') p = Some e'" for p e'
      using that own fr [of p] u by (cases "p = Path e") (simp_all add: kv_usable_def s)
    moreover have "keys_free env r'"
      by (rule keys_free_kept [OF laws(2,3) r(1) _ r'(1,2), of "Path e"]) (use st' P in \<open>simp_all add: s\<close>)
    ultimately have "kv_usable (env, r')" using u r' by (auto simp: kv_usable_def s r'_def)
    moreover have "x = None \<longleftrightarrow> kv_live s (Path e) \<noteq> None"
      using st' Some r by (simp add: kv_live_def kv_view_def s)
    ultimately show ?thesis using ret live Some s by auto
  qed
qed

lemma kvs_DeRegisterAll_live:
  assumes u: "kv_usable s"
  shows "\<exists>s' x. kvs_DeRegisterAll s = Returns (s', x) \<and> kv_usable s' \<and> fst s' = fst s \<and> kv_live s' = Map.empty"
proof -
  obtain env r where s: "s = (env, r)" by (cases s)
  obtain st where r: "storeEngine r = Some st" using u by (auto simp: kv_usable_def s)
  have laws: "store_laws (env_ops env) (env_view env) (env_norm env)" "range_order (cached r) (env_ord env r)"
    using u by (simp_all add: kv_usable_def env_laws_def s)
  show ?thesis
  proof (cases "env_ord env r = []")
    case True
    then have "cached r = Map.empty" using laws(2) by (auto simp: range_order_def)
    then have "kv_live s = Map.empty" by (simp add: kv_live_def s fun_eq_iff)
    with True u s show ?thesis by (simp add: kvs_DeRegisterAll_def kv_DeRegisterAll_def in_env_def)
  next
    case False
    obtain st' errs where del: "delete_all (env_ops env) (env_ord env r) st = (st', errs)" by force
    define r' where "r' = r\<lparr>storeEngine := Some st'\<rparr>"
    let ?K = "(\<lambda>p. rootPath r @ p) ` env_paths env"
    have ret: "kvs_DeRegisterAll s = Returns ((env, r'), WrapArrayErrs errs)"
      using False r del by (simp add: kvs_DeRegisterAll_def kv_DeRegisterAll_def in_env_def s r'_def)
    have ord: "set (env_ord env r) = dom (cached r)" "dom (cached r) \<subseteq> ?K"
      using laws(2) u by (auto simp: range_order_def kv_usable_def s)
    have "\<forall>p \<in> ?K. \<forall>q \<in> ?K. \<not> below (env_norm env) p q" "\<forall>q \<in> ?K. leaf_key (env_view env) (env_norm env) st q"
      using u r by (auto simp: kv_usable_def env_laws_def keys_free_def s)
    from delete_all_leaves [OF laws(1) this(1) _ this(2), of "env_ord env r"] ord del
    have leaves: "\<forall>q \<in> ?K. leaf_key (env_view env) (env_norm env) st' q"
      and gone: "\<forall>q \<in> ?K. q \<in> dom (cached r) \<longrightarrow> env_view env st' q = None" by simp_all
    have none: "env_view env st' q = None" if "cached r q \<noteq> None" for q
      using gone ord(2) that by (metis domI not_None_eq subsetD)
    have "kv_live (env, r') p = None" for p
      using none [of "rootPath r @ p"] by (cases "cached r (rootPath r @ p)") (simp_all add: kv_live_def kv_view_def r'_def cached_def)
    then have live: "kv_live (env, r') = Map.empty" by (simp add: fun_eq_iff)
    have "keys_free env r'" using leaves by (simp add: keys_free_def r'_def)
    with live u have "kv_usable (env, r')" by (simp add: kv_usable_def s r'_def cached_def)
    with ret live s show ?thesis by auto
  qed
qed

interpretation kvs: service_registry kv_usable "\<lambda>s p. p \<in> env_paths (fst s)" kv_live
  kvs_Register kvs_DeRegister kvs_DeRegisterAll
proof
  fix s :: "'a kv_env \<times> 'a kvRegistry" and e :: Endpoint
  assume u: "kv_usable s"
  { assume P: "Path e \<in> env_paths (fst s)"
    show "\<exists>s'. kvs_Register s e = Returns (s', None) \<and> kv_usable s'
        \<and> (\<lambda>p. p \<in> env_paths (fst s')) = (\<lambda>p. p \<in> env_paths (fst s)) \<and> kv_live s' = (kv_live s)(Path e \<mapsto> e)"
      using kvs_Register_live [OF u P] by metis
    show "\<exists>s' x. kvs_DeRegister s e = Returns (s', x) \<and> kv_usable s'
        \<and> (\<lambda>p. p \<in> env_paths (fst s')) = (\<lambda>p. p \<in> env_paths (fst s))
        \<and> kv_live s' = (kv_live s)(Path e := None) \<and> (kv_live s (Path e) \<noteq> None \<longrightarrow> x = None)"
      using kvs_DeRegister_live [OF u P] by metis }
  show "\<exists>s' x. kvs_DeRegisterAll s = Returns (s', x) \<and> kv_usable s'
      \<and> (\<lambda>p. p \<in> env_paths (fst s')) = (\<lambda>p. p \<in> env_paths (fst s)) \<and> kv_live s' = Map.empty"
    using kvs_DeRegisterAll_live [OF u] by metis
qed

text \<open>
  A store to run the definitions on, with directories: a put makes those above its key, and
  a value is refused on a directory and below a value.
\<close>

definition is_child :: "string \<Rightarrow> string \<Rightarrow> bool" where
  "is_child d p \<longleftrightarrow> take (length d + 1) p = d @ ''/'' \<and> drop (length d + 1) p \<noteq> []
     \<and> CHR ''/'' \<notin> set (drop (length d + 1) p)"

definition ancestors :: "string \<Rightarrow> string list" where
  "ancestors p = map (\<lambda>i. take i p) (filter (\<lambda>i. p ! i = CHR ''/'') [0..<length p])"

definition listed_value :: "kv_node \<Rightarrow> kv_value" where
  "listed_value n = (case n of Value v \<Rightarrow> v | Dir \<Rightarrow> Inl (NewError ''unexpected end of JSON input''))"

definition tree_Put :: "(string \<times> kv_node) list \<Rightarrow> string \<Rightarrow> kv_value \<Rightarrow> (string \<times> kv_node) list \<times> err" where
  "tree_Put st p v =
     (if map_of st p = Some Dir \<or> list_ex (\<lambda>d. map_of st d \<notin> {None, Some Dir}) (ancestors p)
      then (st, Some (NewError ''Not a file''))
      else ((p, Value v) # map (\<lambda>d. (d, Dir)) (ancestors p) @ st, None))"

definition tree_Delete :: "(string \<times> kv_node) list \<Rightarrow> string \<Rightarrow> (string \<times> kv_node) list \<times> err" where
  "tree_Delete st p =
     (case map_of st p of
        None \<Rightarrow> (st, Some (NewError ''Key not found in store''))
      | Some Dir \<Rightarrow> (st, Some (NewError ''Not a file''))
      | Some (Value v) \<Rightarrow> (filter (\<lambda>kn. fst kn \<noteq> p) st, None))"

definition tree_store :: "(string \<times> kv_node) list Store" where
  "tree_store =
     \<lparr>kv_Exists = (\<lambda>st p. Inr (map_of st p \<noteq> None)), kv_Put = tree_Put, kv_Delete = tree_Delete,
      kv_List = (\<lambda>st d. Inr (map (map_prod id listed_value)
        (filter (\<lambda>kn. map_of st (fst kn) = Some (snd kn) \<and> is_child d (fst kn)) st)))\<rparr>"

lemma is_child_iff: "is_child d p \<longleftrightarrow> (\<exists>r. r \<noteq> [] \<and> CHR ''/'' \<notin> set r \<and> p = d @ ''/'' @ r)"
proof
  assume "is_child d p"
  then have "p = (d @ ''/'') @ drop (length d + 1) p" by (metis is_child_def append_take_drop_id)
  with \<open>is_child d p\<close> show "\<exists>r. r \<noteq> [] \<and> CHR ''/'' \<notin> set r \<and> p = d @ ''/'' @ r"
    unfolding is_child_def by (metis append.assoc)
qed (auto simp: is_child_def)

lemma set_ancestors: "set (ancestors p) = {d. below id d p}"
proof (intro set_eqI iffI)
  fix d assume "d \<in> set (ancestors p)"
  then obtain i where i: "i < length p" "p ! i = CHR ''/''" "d = take i p" by (auto simp: ancestors_def)
  then have "p = d @ ''/'' @ drop (Suc i) p" using id_take_nth_drop [OF i(1)] by simp
  then show "d \<in> {d. below id d p}" by (auto simp: below_def)
next
  fix d assume "d \<in> {d. below id d p}"
  then obtain r where "p = d @ ''/'' @ r" by (auto simp: below_def)
  then show "d \<in> set (ancestors p)" by (force simp: ancestors_def nth_append intro: image_eqI [of _ _ "length d"])
qed

lemma below_irrefl: "\<not> below norm p p"
  by (simp add: below_def)

lemma map_of_filter_neq: "map_of (filter (\<lambda>kn. fst kn \<noteq> p) st) q = (if q = p then None else map_of st q)"
  by (induction st) auto

lemma map_of_dirs: "map_of (map (\<lambda>d. (d, Dir)) ds @ st) q = (if q \<in> set ds then Some Dir else map_of st q)"
  by (induction ds) auto

lemma no_value_iff: "m \<notin> {None, Some Dir} \<longleftrightarrow> (\<exists>v. m = Some (Value v))"
  by (cases m rule: option.exhaust) (auto intro: kv_node.exhaust)

lemma tree_Put_laws:
  assumes "leaf_key map_of id st p" "tree_Put st p v = (st', x)"
  shows "x = None \<and> map_of st' p = Some (Value v) \<and> others_kept (map_of st) (map_of st') id p"
proof -
  have up: "map_of st d \<in> {None, Some Dir}" if "d \<in> set (ancestors p)" for d
    using that assms(1) no_value_iff [of "map_of st d"] by (auto simp: set_ancestors leaf_key_def)
  then have "tree_Put st p v = ((p, Value v) # map (\<lambda>d. (d, Dir)) (ancestors p) @ st, None)"
    using assms(1) by (auto simp: tree_Put_def leaf_key_def list_ex_iff)
  then have x: "x = None" and st': "st' = (p, Value v) # map (\<lambda>d. (d, Dir)) (ancestors p) @ st" using assms(2) by simp_all
  have "map_of st' q = map_of st q \<or> below id q p \<and> map_of st q \<in> {None, Some Dir} \<and> map_of st' q \<in> {None, Some Dir}"
    if "q \<noteq> p" for q
    using that up [of q] by (auto simp: st' map_of_dirs set_ancestors simp del: map_of_append)
  then show ?thesis using x by (simp add: others_kept_def st')
qed

lemma tree_Delete_laws:
  assumes "leaf_key map_of id st p" "tree_Delete st p = (st', x)"
  shows "(x = None \<longleftrightarrow> map_of st p \<noteq> None) \<and> map_of st' p = None \<and> others_kept (map_of st) (map_of st') id p"
  using assms
  by (auto simp: tree_Delete_def leaf_key_def others_kept_def map_of_filter_neq split: option.splits kv_node.splits)

lemma tree_store_laws: "store_laws tree_store map_of id"
  using tree_Put_laws tree_Delete_laws by (simp add: store_laws_def tree_store_def)

text \<open>A put makes the directory above its key, on which a value is then refused.\<close>

lemma tree_store_directories:
  "kv_Exists tree_store (fst (kv_Put tree_store [] ''a/b'' v)) ''a'' = Inr True"
  "snd (kv_Put tree_store (fst (kv_Put tree_store [] ''a/b'' v)) ''a'' w) = Some (NewError ''Not a file'')"
  by (simp_all add: tree_store_def tree_Put_def ancestors_def upt_rec)

lemma tree_list_laws: "list_laws tree_store map_of"
  unfolding list_laws_def
proof (intro conjI allI impI)
  fix st d v assume "child_value (map_of st) d v"
  then obtain p where p: "is_child d p" "map_of st p = Some (Value v)" by (auto simp: child_value_def is_child_iff)
  then have "(p, Value v) \<in> set st" by (auto dest: map_of_SomeD)
  with p show "\<exists>ps. kv_List tree_store st d = Inr ps \<and> v \<in> snd ` set ps"
    by (force simp: tree_store_def listed_value_def)
next
  fix st d ps v assume "kv_List tree_store st d = Inr ps" "v \<in> snd ` set ps"
  then obtain p n where n: "map_of st p = Some n" "is_child d p" "v = listed_value n" by (auto simp: tree_store_def)
  then show "child_value (map_of st) d v \<or> (\<exists>e. v = Inl e)"
    by (cases n) (auto simp: child_value_def is_child_iff listed_value_def)
qed

text \<open>The paths of endpoints: three names, none with a slash. None is below another.\<close>

definition endpoint_paths :: "string set" where
  "endpoint_paths = {''/'' @ a @ ''/'' @ b @ ''/'' @ c | a b c.
     CHR ''/'' \<notin> set a \<and> CHR ''/'' \<notin> set b \<and> CHR ''/'' \<notin> set c}"

lemma endpoint_pathsI:
  "CHR ''/'' \<notin> set a \<Longrightarrow> CHR ''/'' \<notin> set b \<Longrightarrow> CHR ''/'' \<notin> set c \<Longrightarrow> ''/'' @ a @ ''/'' @ b @ ''/'' @ c \<in> endpoint_paths"
  unfolding endpoint_paths_def by blast

lemma endpoint_paths_slashes: "p \<in> endpoint_paths \<Longrightarrow> count_list p (CHR ''/'') = 3"
  by (auto simp: endpoint_paths_def count_list_0_iff)

lemma endpoint_paths_apart:
  assumes "p \<in> endpoint_paths" "q \<in> endpoint_paths"
  shows "\<not> below id (root @ p) (root @ q)"
proof
  assume "below id (root @ p) (root @ q)"
  then obtain r where "q = p @ ''/'' @ r" by (auto simp: below_def)
  then have "count_list q (CHR ''/'') > count_list p (CHR ''/'')" by simp
  then show False using assms endpoint_paths_slashes by simp
qed

definition demo_env :: "(string \<times> kv_node) list kv_env" where
  "demo_env = \<lparr>env_ops = tree_store, env_view = map_of, env_norm = id,
     env_ord = (\<lambda>r. sorted_list_of_set (dom (cached r))), env_paths = endpoint_paths\<rparr>"

definition demo_newStore :: "backend \<Rightarrow> string list \<Rightarrow> store_Config \<Rightarrow> go_error + (string \<times> kv_node) list" where
  "demo_newStore b addrs c = Inr []"

definition demo_rc :: RegistryConfig where
  "demo_rc = \<lparr>rc_RegistryType = ''etcd'', rc_Addrs = [''h:2379''], rc_TLS = None, rc_ConnectionTimeout = 0,
     rc_Bucket = [], rc_PersistConnection = False, rc_Username = [], rc_Password = []\<rparr>"

definition demo_kvr :: "(string \<times> kv_node) list kvRegistry" where
  "demo_kvr = NewEtcdRegistry demo_newStore demo_rc"

lemma demo_env_laws: "env_laws demo_env root"
  using tree_store_laws endpoint_paths_apart by (simp add: env_laws_def demo_env_def inj_on_def range_order_def)

subsection \<open>Properties of the registry on a store\<close>

lemma Init_usable:
  assumes "kv_Init newStore new_kvRegistry ty config = (r, None)" "env_laws env (rootPath r)" "keys_free env r"
  shows "kv_usable (env, r) \<and> kv_live (env, r) = Map.empty"
  using assms
  by (auto simp: kv_Init_def new_kvRegistry_def checkRegistryConfig_def kv_usable_def kv_live_def cached_def
      Let_def split: option.splits sum.splits prod.splits)

text \<open>
  C10. A registry on a store that was initialised without an error refines the map from paths
  to endpoints: whatever calls follow, none panics, and the endpoints it has in its cache and
  in the store are those registered last for their path and not removed since, each stored
  under the root path and its path with its encoded metadata. The range orders are arbitrary,
  the store as well within its documented behaviour on leaf keys; it may make directories
  above a key and refuse values on them. The paths are of a set that the store tells apart,
  none below another, whose keys were no directories and below no value at the start.
\<close>

theorem kv_registry_refines_map:
  assumes "kv_Init newStore new_kvRegistry ty config = (r, None)" "env_laws env (rootPath r)" "keys_free env r"
    and "list_all (\<lambda>p. p \<in> env_paths env) (op_paths os)"
  shows "\<exists>s. reg_run kvs_Register kvs_DeRegister kvs_DeRegisterAll os (env, r) = Returns s
    \<and> kv_live s = live_after Map.empty os
    \<and> (\<forall>p e. live_after Map.empty os p = Some e
         \<longrightarrow> kv_view (fst s) (snd s) (rootPath (snd s) @ p) = Some (Value (Endpoint_Data e)))"
proof -
  have u: "kv_usable (env, r)" "kv_live (env, r) = Map.empty" using Init_usable [OF assms(1-3)] by auto
  obtain s where "reg_run kvs_Register kvs_DeRegister kvs_DeRegisterAll os (env, r) = Returns s" "kv_usable s"
      "kv_live s = live_after Map.empty os"
    using kvs.run_live [OF u(1), of os] assms(4) u(2) by auto
  then show ?thesis by (metis kv_usable_def)
qed

lemma demo_kvr_fields:
  "storeEngine demo_kvr = Some []" "servicesCache demo_kvr = Some Map.empty" "rootPath demo_kvr = ServiceRootPath"
  by (simp_all add: demo_kvr_def NewEtcdRegistry_def etcd_Init_def kv_Init_def backend_of_def checkRegistryConfig_def
      demo_newStore_def new_kvRegistry_def)

lemma demo_Init: "kv_Init demo_newStore new_kvRegistry ''etcd'' demo_rc = (demo_kvr, None)"
  by (simp add: demo_kvr_def NewEtcdRegistry_def etcd_Init_def kv_Init_def backend_of_def checkRegistryConfig_def
      demo_newStore_def)

theorem kv_registry_refines_map_witness:
  "\<exists>s. reg_run kvs_Register kvs_DeRegister kvs_DeRegisterAll [OpRegister demo_ep, OpRegister demo_ep2, OpDeRegister demo_ep]
        (demo_env, demo_kvr) = Returns s
    \<and> kv_live s = [Path demo_ep2 \<mapsto> demo_ep2]
    \<and> kv_view (fst s) (snd s) (rootPath (snd s) @ Path demo_ep2) = Some (Value (Inr JNull))"
proof -
  have "Path demo_ep \<noteq> Path demo_ep2" by (simp add: demo_ep_def demo_ep2_def)
  then have l: "live_after Map.empty [OpRegister demo_ep, OpRegister demo_ep2, OpDeRegister demo_ep]
      = [Path demo_ep2 \<mapsto> demo_ep2]" by (auto simp: fun_eq_iff)
  have d: "Endpoint_Data demo_ep2 = Inr JNull"
    by (simp add: Endpoint_Data_def encode_strmap_def demo_ep2_def demo_ep_def)
  have "Path demo_ep \<in> endpoint_paths" "Path demo_ep2 \<in> endpoint_paths"
    using endpoint_pathsI [of "''a.b.c''" "''calc''" "''h:1''"] endpoint_pathsI [of "''a.b.c''" "''calc''" "''h:2''"]
    by (simp_all add: demo_ep_def demo_ep2_def)
  then have p: "list_all (\<lambda>p. p \<in> env_paths demo_env) (op_paths [OpRegister demo_ep, OpRegister demo_ep2, OpDeRegister demo_ep])"
    by (simp add: demo_env_def)
  have "keys_free demo_env demo_kvr" by (simp add: keys_free_def leaf_key_def demo_kvr_fields demo_env_def)
  from kv_registry_refines_map [OF demo_Init demo_env_laws this p] show ?thesis
    unfolding l d [symmetric] by (metis fun_upd_same)
qed

lemma kv_Register_returns:
  assumes "store_laws ops view norm" "storeEngine r = Some st" "servicesCache r = Some c"
    and "leaf_key view norm st (rootPath r @ Path e)"
  shows "\<exists>st'. kv_Register ops r e
      = Returns (r\<lparr>servicesCache := Some (c(rootPath r @ Path e \<mapsto> e)), storeEngine := Some st'\<rparr>, None)
    \<and> view st' (rootPath r @ Path e) = Some (Value (Endpoint_Data e))
    \<and> others_kept (view st) (view st') norm (rootPath r @ Path e)"
proof -
  obtain st' x where put: "kv_Put ops st (rootPath r @ Path e) (Endpoint_Data e) = (st', x)" by force
  with assms store_lawsD(2) [OF assms(1,4)] store_lawsD(3) [OF assms(1) put assms(4)] show ?thesis
    by (intro exI [of _ st']) (simp add: kv_Register_def)
qed

lemma set_unmarshal_all: "set (unmarshal_all ps) = {rs. \<exists>v \<in> snd ` set ps. unmarshal_Endpoint v = (rs, None)}"
proof (induction ps)
  case (Cons pv ps)
  then show ?case
    by (cases pv; cases "unmarshal_Endpoint (snd pv)"; cases "snd (unmarshal_Endpoint (snd pv))") auto
qed simp

lemma unmarshal_simps [simp]:
  "unmarshal_Endpoint (Inl x) = (zero_Endpoint, Some x)"
  "unmarshal_Endpoint (Inr JNull) = (zero_Endpoint, None)"
  by (simp_all add: unmarshal_Endpoint_def decode_struct_def)

lemma Endpoint_Data_nil: "MetaData e = None \<Longrightarrow> Endpoint_Data e = Inr JNull"
  by (simp add: Endpoint_Data_def encode_strmap_def)

text \<open>What a store holds below a directory after one more endpoint without metadata is put there.\<close>

lemma child_values_nil:
  assumes "store_laws ops view norm" "\<forall>v. child_value (view st) d v \<longrightarrow> v = Inr JNull"
    and "view st' p = Some (Value (Inr JNull))" "others_kept (view st) (view st') norm p"
    and "child_value (view st') d v"
  shows "v = Inr JNull"
proof -
  obtain r where r: "r \<noteq> []" "CHR ''/'' \<notin> set r" "view st' (d @ ''/'' @ r) = Some (Value v)"
    using assms(5) by (auto simp: child_value_def)
  show ?thesis
  proof (cases "norm (d @ ''/'' @ r) = norm p")
    case True
    then show ?thesis using store_lawsD(1) [OF assms(1) True, of st'] r(3) assms(3) by simp
  next
    case False
    then have "child_value (view st) d v"
      using r others_keptD(2) [OF assms(4) False, of v] by (auto simp: child_value_def)
    then show ?thesis using assms(2) by blast
  qed
qed

text \<open>What a directory lists after an endpoint without metadata is registered in it.\<close>

lemma register_then_list:
  assumes "store_laws ops view norm" "list_laws ops view" "storeEngine r = Some st" "servicesCache r \<noteq> None"
    and "Path e = d @ ''/'' @ a" "a \<noteq> []" "CHR ''/'' \<notin> set a" "leaf_key view norm st (rootPath r @ Path e)"
    and "MetaData e = None" "\<forall>v. child_value (view st) (rootPath r @ d) v \<longrightarrow> v = Inr JNull"
  shows "\<exists>r' st' ps. kv_Register ops r e = Returns (r', None) \<and> storeEngine r' = Some st' \<and> rootPath r' = rootPath r
    \<and> kv_List ops st' (rootPath r @ d) = Inr ps
    \<and> {rs. \<exists>v \<in> snd ` set ps. unmarshal_Endpoint v = (rs, None)} = {zero_Endpoint}"
proof -
  obtain c where c: "servicesCache r = Some c" using assms(4) by auto
  obtain st' where st': "kv_Register ops r e
        = Returns (r\<lparr>servicesCache := Some (c(rootPath r @ Path e \<mapsto> e)), storeEngine := Some st'\<rparr>, None)"
      "view st' (rootPath r @ Path e) = Some (Value (Inr JNull))"
      "others_kept (view st) (view st') norm (rootPath r @ Path e)"
    using kv_Register_returns [OF assms(1,3) c assms(8)] Endpoint_Data_nil [OF assms(9)] by auto
  have "child_value (view st') (rootPath r @ d) (Inr JNull)"
    using st'(2) assms(5-7) unfolding child_value_def by auto
  then obtain ps where ps: "kv_List ops st' (rootPath r @ d) = Inr ps" "Inr JNull \<in> snd ` set ps"
    using assms(2) unfolding list_laws_def by blast
  have v: "v = Inr JNull \<or> (\<exists>x. v = Inl x)" if "v \<in> snd ` set ps" for v
  proof -
    have "child_value (view st') (rootPath r @ d) v \<or> (\<exists>x. v = Inl x)"
      using assms(2) ps(1) that unfolding list_laws_def by blast
    then show ?thesis using child_values_nil [OF assms(1,10) st'(2,3)] by blast
  qed
  have "{rs. \<exists>v \<in> snd ` set ps. unmarshal_Endpoint v = (rs, None)} = {zero_Endpoint}"
  proof (intro set_eqI iffI)
    fix rs assume "rs \<in> {rs. \<exists>v \<in> snd ` set ps. unmarshal_Endpoint v = (rs, None)}"
    then obtain w where "w \<in> snd ` set ps" "unmarshal_Endpoint w = (rs, None)" by blast
    with v [of w] show "rs \<in> {zero_Endpoint}" by auto
  next
    fix rs assume "rs \<in> {zero_Endpoint}"
    with ps(2) show "rs \<in> {rs. \<exists>v \<in> snd ` set ps. unmarshal_Endpoint v = (rs, None)}" by force
  qed
  with st'(1) ps(1) show ?thesis by simp
qed

text \<open>
  What \<^verbatim>\<open>ListServices\<close> returns for endpoints the way the server registers them, without
  metadata: the entry is there, but it is the zero endpoint, with neither address, nor path,
  nor service name, because \<^verbatim>\<open>Register\<close> stores the metadata only and \<^verbatim>\<open>ListServices\<close> decodes
  the stored value as a whole endpoint.
\<close>

lemma kv_list_loses_endpoint:
  assumes "store_laws ops view norm" "list_laws ops view" "storeEngine r = Some st" "servicesCache r \<noteq> None"
    and "TransformInvokePointToPath ip = Inr d" "Path e = d @ ''/'' @ a" "a \<noteq> []" "CHR ''/'' \<notin> set a"
    and "leaf_key view norm st (rootPath r @ Path e)" "MetaData e = None" "\<forall>v. child_value (view st) (rootPath r @ d) v \<longrightarrow> v = Inr JNull"
  shows "\<exists>r' es. kv_Register ops r e = Returns (r', None) \<and> kv_ListServices ops r' ip = Returns es
    \<and> set es = {zero_Endpoint}"
proof -
  obtain r' st' ps where "kv_Register ops r e = Returns (r', None)" "storeEngine r' = Some st'" "rootPath r' = rootPath r"
      "kv_List ops st' (rootPath r @ d) = Inr ps"
      "{rs. \<exists>v \<in> snd ` set ps. unmarshal_Endpoint v = (rs, None)} = {zero_Endpoint}"
    using register_then_list [OF assms(1-4,6-11)] by blast
  then show ?thesis using assms(5) by (simp add: kv_ListServices_def set_unmarshal_all)
qed

theorem kv_list_loses_endpoint_witness:
  "\<exists>r' es. kv_Register tree_store demo_kvr demo_ep = Returns (r', None)
    \<and> kv_ListServices tree_store r' ''a.b.c:calc.Add'' = Returns es \<and> set es = {zero_Endpoint}"
proof (rule kv_list_loses_endpoint [OF tree_store_laws tree_list_laws demo_kvr_fields(1)])
  show "TransformInvokePointToPath ''a.b.c:calc.Add'' = Inr ''/a.b.c/calc''"
    by (simp add: TransformInvokePointToPath_def)
  show "Path demo_ep = ''/a.b.c/calc'' @ ''/'' @ ''h:1''" by (simp add: demo_ep_def)
qed (simp_all add: demo_kvr_fields demo_ep_def child_value_def leaf_key_def)

text \<open>
  Removing an endpoint twice from a registry on a store: the first call succeeds, the
  second one fails, because the cache keeps the endpoint and the store no longer has it;
  the registry in memory never fails.
\<close>

lemma kv_deregister_twice_fails:
  assumes "store_laws ops view norm" "storeEngine r = Some st" "servicesCache r \<noteq> None"
    and leaf: "leaf_key view norm st (rootPath r @ Path e)"
  shows "\<exists>r1 r2 r3 x. kv_Register ops r e = Returns (r1, None) \<and> kv_DeRegister ops r1 e = Returns (r2, None)
    \<and> kv_DeRegister ops r2 e = Returns (r3, Some x) \<and> cached r3 (rootPath r3 @ Path e) = Some e
    \<and> (\<forall>m. \<exists>m'. mem_DeRegister m e = Returns (m', None))"
proof -
  let ?f = "rootPath r @ Path e"
  obtain c where c: "servicesCache r = Some c" using assms(3) by auto
  obtain st1 where st1: "kv_Register ops r e = Returns (r\<lparr>servicesCache := Some (c(?f \<mapsto> e)), storeEngine := Some st1\<rparr>, None)"
      "view st1 ?f = Some (Value (Endpoint_Data e))" "others_kept (view st) (view st1) norm ?f"
    using kv_Register_returns [OF assms(1,2) c leaf] by auto
  have leaf1: "leaf_key view norm st1 ?f"
    using leaf_key_kept [OF assms(1) st1(3) _ leaf] st1(2) below_irrefl by simp
  obtain st2 x2 where d2: "kv_Delete ops st1 ?f = (st2, x2)" by force
  obtain st3 x3 where d3: "kv_Delete ops st2 ?f = (st3, x3)" by force
  note d2' = store_lawsD(4) [OF assms(1) d2 leaf1]
  have "leaf_key view norm st2 ?f"
    using leaf_key_kept [OF assms(1) _ _ leaf1, of st2 ?f] d2' below_irrefl by simp
  then have x: "x2 = None" "x3 \<noteq> None"
    using d2' store_lawsD(4) [OF assms(1) d3] st1(2) by simp_all
  define r1 where "r1 = r\<lparr>servicesCache := Some (c(?f \<mapsto> e)), storeEngine := Some st1\<rparr>"
  have "kv_DeRegister ops r1 e = Returns (r1\<lparr>storeEngine := Some st2\<rparr>, None)"
    and "kv_DeRegister ops (r1\<lparr>storeEngine := Some st2\<rparr>) e = Returns (r1\<lparr>storeEngine := Some st3\<rparr>, x3)"
    using d2 d3 x(1) by (simp_all add: kv_DeRegister_def r1_def cached_def)
  moreover have "cached (r1\<lparr>storeEngine := Some st3\<rparr>) (rootPath (r1\<lparr>storeEngine := Some st3\<rparr>) @ Path e) = Some e"
    by (simp add: r1_def cached_def)
  moreover have "\<forall>m. \<exists>m'. mem_DeRegister m e = Returns (m', None)" by (simp add: mem_DeRegister_def)
  ultimately show ?thesis using st1(1) x(2) unfolding r1_def [symmetric] by blast
qed

lemma kv_deregister_twice_fails_witness:
  "\<exists>r1 r2 r3 x. kv_Register tree_store demo_kvr demo_ep = Returns (r1, None)
    \<and> kv_DeRegister tree_store r1 demo_ep = Returns (r2, None)
    \<and> kv_DeRegister tree_store r2 demo_ep = Returns (r3, Some x)"
  using kv_deregister_twice_fails [OF tree_store_laws demo_kvr_fields(1), of demo_ep]
  by (simp add: demo_kvr_fields leaf_key_def) blast

end
