(* ===== verification/Selectors.thy ===== *)
theory Selectors
  imports GoStd
begin

text \<open>
  The address selectors of \<^verbatim>\<open>src/selector.go\<close>, \<^verbatim>\<open>src/selector_rr.go\<close> and
  \<^verbatim>\<open>src/selector_random.go\<close>, with the type \<^verbatim>\<open>Address\<close> of \<^verbatim>\<open>src/balancer.go\<close>. The loop of
  the round-robin selector may run for ever: it is a partial function whose value is \<open>None\<close>
  then. The locale states what the balancer relies on.
\<close>

section \<open>Data\<close>

text \<open>
  The dynamic value of \<^verbatim>\<open>Address.Metadata\<close>: a pointer to a string map, a nil pointer of that
  type, or anything else, nil included.
\<close>

datatype metadata = MetaMap "string \<rightharpoonup> string" | NilMetaMap | OtherMeta

record Address =
  Addr :: string
  Metadata :: metadata

definition zero_Address :: Address where
  "zero_Address = \<lparr>Addr = [], Metadata = OtherMeta\<rparr>"

record AddrInfo =
  ai_addr :: Address
  ai_weight :: int
  ai_load :: u64
  ai_connected :: bool

record baseSelector =
  addrs :: "string list"
  addrMap :: "string \<rightharpoonup> AddrInfo"

section \<open>baseSelector\<close>

text \<open>A positive number in the metadata, or the default.\<close>

definition meta_int :: "(string \<rightharpoonup> string) \<Rightarrow> string \<Rightarrow> int \<Rightarrow> int" where
  "meta_int m key dflt =
     (case m key of
        None \<Rightarrow> dflt
      | Some w \<Rightarrow> (case strconv_Atoi w of Some n \<Rightarrow> (if n > 0 then n else dflt) | None \<Rightarrow> dflt))"

text \<open>A new address with its metadata: an entry of the map and as many of the slice as its weight.\<close>

definition add_addr :: "baseSelector \<Rightarrow> Address \<Rightarrow> (string \<rightharpoonup> string) \<Rightarrow> baseSelector" where
  "add_addr b a m =
     (let weight = meta_int m ''weight'' 1;
          load = meta_int m ''load'' 0
      in b\<lparr>addrMap := (addrMap b)(Addr a \<mapsto>
             \<lparr>ai_addr = a, ai_weight = weight, ai_load = word_of_int load, ai_connected = False\<rparr>),
           addrs := addrs b @ replicate (nat weight) (Addr a)\<rparr>)"

fun Reset_loop :: "Address list \<Rightarrow> baseSelector \<Rightarrow> baseSelector outcome" where
  "Reset_loop [] b = Returns b"
| "Reset_loop (a # as) b =
     (case addrMap b (Addr a) of
        Some _ \<Rightarrow> Reset_loop as b
      | None \<Rightarrow>
          (case Metadata a of
             NilMetaMap \<Rightarrow> Panics ''invalid memory address or nil pointer dereference''
           | MetaMap m \<Rightarrow> Reset_loop as (add_addr b a m)
           | OtherMeta \<Rightarrow> Reset_loop as (add_addr b a Map.empty)))"

text \<open>\<^verbatim>\<open>Reset\<close> makes a new map; the slice of weighted addresses is kept.\<close>

definition Reset :: "baseSelector \<Rightarrow> Address list \<Rightarrow> baseSelector outcome" where
  "Reset b as = Reset_loop as (b\<lparr>addrMap := Map.empty\<rparr>)"

definition AddrList :: "string list \<Rightarrow> baseSelector \<Rightarrow> Address list" where
  "AddrList ord b = map ai_addr (range_values (addrMap b) ord)"

text \<open>The method \<^verbatim>\<open>Select\<close> that the other selectors replace.\<close>

definition base_Select :: "baseSelector \<Rightarrow> Address \<times> err" where
  "base_Select b = (zero_Address, None)"

definition add_load :: "baseSelector \<Rightarrow> string \<Rightarrow> u64 \<Rightarrow> baseSelector" where
  "add_load b a d =
     (case addrMap b a of
        None \<Rightarrow> b
      | Some i \<Rightarrow> b\<lparr>addrMap := (addrMap b)(a \<mapsto> i\<lparr>ai_load := ai_load i + d\<rparr>)\<rparr>)"

definition sel_Put :: "baseSelector \<Rightarrow> string \<Rightarrow> baseSelector \<times> err" where
  "sel_Put b a = (add_load b a (- 1), None)"

section \<open>RoundRobinSelector\<close>

record RoundRobinSelector =
  rr_base :: baseSelector
  rr_next :: nat

definition newBase :: baseSelector where
  "newBase = \<lparr>addrs = [], addrMap = Map.empty\<rparr>"

definition NewRoundRobinSelector :: RoundRobinSelector where
  "NewRoundRobinSelector = \<lparr>rr_base = newBase, rr_next = 0\<rparr>"

text \<open>
  The loop of \<^verbatim>\<open>Select\<close> from position \<open>next\<close>, where \<open>start\<close> is \<^verbatim>\<open>r.next\<close>: the address found
  and the new \<^verbatim>\<open>next\<close>.
\<close>

partial_function (option) rr_scan ::
  "string list \<Rightarrow> (string \<rightharpoonup> AddrInfo) \<Rightarrow> nat \<Rightarrow> nat \<Rightarrow> (string \<times> nat) option" where
  "rr_scan as m start next =
     (let a = as ! next; next' = (next + 1) mod length as
      in case m a of
           None \<Rightarrow> rr_scan as m start next'
         | Some i \<Rightarrow>
             if ai_connected i then Some (a, next')
             else if next' = start then Some (a, next')
             else rr_scan as m start next')"

definition rr_Select :: "RoundRobinSelector \<Rightarrow> (RoundRobinSelector \<times> Address \<times> err) option" where
  "rr_Select r =
     (let as = addrs (rr_base r); m = addrMap (rr_base r)
      in if length as = 0 then Some (r, zero_Address, Some ErrAddrListEmptyErr)
         else let start = (if rr_next r \<ge> length as then 0 else rr_next r)
              in (case rr_scan as m start start of
                    None \<Rightarrow> None
                  | Some (a, next') \<Rightarrow>
                      Some (\<lparr>rr_base = add_load (rr_base r) a 1, rr_next = next'\<rparr>,
                            (case m a of Some i \<Rightarrow> ai_addr i | None \<Rightarrow> zero_Address), None)))"

text \<open>The methods of the embedded \<^verbatim>\<open>baseSelector\<close>.\<close>

definition rr_Reset :: "RoundRobinSelector \<Rightarrow> Address list \<Rightarrow> RoundRobinSelector outcome" where
  "rr_Reset r as =
     (case Reset (rr_base r) as of
        Returns b \<Rightarrow> Returns (r\<lparr>rr_base := b\<rparr>) | Panics m \<Rightarrow> Panics m | Blocks \<Rightarrow> Blocks)"

definition rr_AddrList :: "string list \<Rightarrow> RoundRobinSelector \<Rightarrow> Address list" where
  "rr_AddrList ord r = AddrList ord (rr_base r)"

definition rr_Put :: "RoundRobinSelector \<Rightarrow> string \<Rightarrow> RoundRobinSelector \<times> err" where
  "rr_Put r a = (case sel_Put (rr_base r) a of (b, e) \<Rightarrow> (r\<lparr>rr_base := b\<rparr>, e))"

section \<open>RandomSelector\<close>

text \<open>The selector is its base; \<open>rnd\<close> is the number \<^verbatim>\<open>r.r.Int()\<close> draws.\<close>

definition NewRandomSelector :: baseSelector where
  "NewRandomSelector = newBase"

fun random_scan :: "string list \<Rightarrow> (string \<rightharpoonup> AddrInfo) \<Rightarrow> nat \<Rightarrow> nat list \<Rightarrow> string option" where
  "random_scan as m idx [] = None"
| "random_scan as m idx (i # is) =
     (let a = as ! ((idx + i) mod length as)
      in case m a of
           Some info \<Rightarrow> if ai_connected info then Some a else random_scan as m idx is
         | None \<Rightarrow> random_scan as m idx is)"

definition random_Select :: "nat \<Rightarrow> baseSelector \<Rightarrow> baseSelector \<times> Address \<times> err" where
  "random_Select rnd b =
     (if length (addrs b) = 0 then (b, zero_Address, Some ErrAddrListEmptyErr)
      else let size = length (addrs b); idx = rnd mod size
           in (case random_scan (addrs b) (addrMap b) idx [0..<size] of
                 Some a \<Rightarrow> (add_load b a 1, (case addrMap b a of Some i \<Rightarrow> ai_addr i | None \<Rightarrow> zero_Address), None)
               | None \<Rightarrow> (b, zero_Address, Some ErrNoAvailableAddressErr)))"

section \<open>The interface\<close>

text \<open>
  What a selector knows: the address under each name. \<^verbatim>\<open>Reset\<close> replaces it by the first
  address given for each name, \<^verbatim>\<open>Select\<close> and \<^verbatim>\<open>Put\<close> keep it, and an address selected without
  an error is one of it.
\<close>

definition first_addrs :: "Address list \<Rightarrow> string \<rightharpoonup> Address" where
  "first_addrs as = map_of (map (\<lambda>a. (Addr a, a)) as)"

definition known_addrs :: "baseSelector \<Rightarrow> string \<rightharpoonup> Address" where
  "known_addrs b n = map_option ai_addr (addrMap b n)"

locale selector =
  fixes reset :: "'s \<Rightarrow> Address list \<Rightarrow> 's outcome"
    and addr_list :: "string list \<Rightarrow> 's \<Rightarrow> Address list"
    and select :: "nat \<Rightarrow> 's \<Rightarrow> ('s \<times> Address \<times> err) option"
    and put :: "'s \<Rightarrow> string \<Rightarrow> 's \<times> err"
    and known :: "'s \<Rightarrow> string \<rightharpoonup> Address"
  assumes reset_known: "reset s as = Returns s' \<Longrightarrow> known s' = first_addrs as"
    and reset_ok: "\<forall>a \<in> set as. Metadata a \<noteq> NilMetaMap \<Longrightarrow> \<exists>s'. reset s as = Returns s'"
    and list_known: "range_order (known s) ord \<Longrightarrow> set (addr_list ord s) = ran (known s)"
    and select_known: "select rnd s = Some (s', a, e) \<Longrightarrow> known s' = known s"
    and select_member: "select rnd s = Some (s', a, None) \<Longrightarrow> a \<in> ran (known s)"
    and put_known: "known (fst (put s n)) = known s" "snd (put s n) = None"
begin

text \<open>An address selected after a reset is one of the addresses of that reset.\<close>

lemma select_after_reset:
  "reset s as = Returns s1 \<Longrightarrow> select rnd s1 = Some (s2, a, None) \<Longrightarrow> a \<in> set as"
  using reset_known [of s as s1] select_member [of rnd s1 s2 a]
  by (auto simp: first_addrs_def ran_def dest: map_of_SomeD)

lemma list_after_reset:
  "reset s as = Returns s1 \<Longrightarrow> range_order (known s1) ord \<Longrightarrow> set (addr_list ord s1) = ran (first_addrs as)"
  using list_known reset_known by simp

lemma put_after_select:
  "select rnd s = Some (s1, a, e) \<Longrightarrow> known (fst (put s1 (Addr a))) = known s"
  using select_known put_known by simp

end

section \<open>Lemmas\<close>

lemma meta_int_positive: "0 < meta_int m key 1"
  by (auto simp: meta_int_def split: option.splits)

lemma range_order_known: "range_order (known_addrs b) ord \<longleftrightarrow> range_order (addrMap b) ord"
  by (auto simp: range_order_def known_addrs_def dom_def)

lemma add_addr_fields:
  "known_addrs (add_addr b a m) = (known_addrs b)(Addr a \<mapsto> a)"
  "addrs (add_addr b a m) = addrs b @ replicate (nat (meta_int m ''weight'' 1)) (Addr a)"
  "dom (addrMap (add_addr b a m)) = insert (Addr a) (dom (addrMap b))"
  by (auto simp: add_addr_def known_addrs_def fun_eq_iff Let_def)

lemma known_add_load [simp]: "known_addrs (add_load b a d) = known_addrs b" "addrs (add_load b a d) = addrs b"
  by (auto simp: known_addrs_def add_load_def fun_eq_iff split: option.splits)

lemma ran_known: "ran (known_addrs b) = ai_addr ` ran (addrMap b)"
  by (auto simp: known_addrs_def ran_def)

lemma Reset_loop_step:
  "Reset_loop (a # as) b = Returns b' \<Longrightarrow>
   addrMap b (Addr a) \<noteq> None \<and> Reset_loop as b = Returns b' \<or>
   addrMap b (Addr a) = None \<and> (\<exists>m. Reset_loop as (add_addr b a m) = Returns b')"
  by (auto split: option.splits metadata.splits)

declare Reset_loop.simps(2) [simp del]

lemma first_addrs_Cons: "first_addrs (a # as) = (first_addrs as)(Addr a \<mapsto> a)"
  by (simp add: first_addrs_def)

lemma Reset_loop_known:
  "Reset_loop as b = Returns b' \<Longrightarrow> known_addrs b' = first_addrs as ++ known_addrs b"
proof (induction as arbitrary: b)
  case Nil
  then show ?case by (simp add: first_addrs_def)
next
  case (Cons a as)
  from Reset_loop_step [OF Cons.prems] show ?case
  proof
    assume old: "addrMap b (Addr a) \<noteq> None \<and> Reset_loop as b = Returns b'"
    then have "Addr a \<in> dom (known_addrs b)" by (auto simp: known_addrs_def)
    then show ?thesis using Cons.IH old by (auto simp: first_addrs_Cons map_add_def fun_eq_iff split: option.splits)
  next
    assume new: "addrMap b (Addr a) = None \<and> (\<exists>m. Reset_loop as (add_addr b a m) = Returns b')"
    then have "known_addrs b (Addr a) = None" by (simp add: known_addrs_def)
    moreover obtain m where "Reset_loop as (add_addr b a m) = Returns b'" using new by blast
    then have "known_addrs b' = first_addrs as ++ (known_addrs b)(Addr a \<mapsto> a)"
      using Cons.IH by (simp only: add_addr_fields)
    ultimately show ?thesis by (auto simp: first_addrs_Cons map_add_def fun_eq_iff split: option.splits)
  qed
qed

lemma known_addrs_empty: "known_addrs (b\<lparr>addrMap := Map.empty\<rparr>) = Map.empty"
  by (simp add: known_addrs_def fun_eq_iff)

lemma Reset_loop_returns:
  "\<forall>a \<in> set as. Metadata a \<noteq> NilMetaMap \<Longrightarrow> \<exists>b'. Reset_loop as b = Returns b'"
  by (induction as arbitrary: b) (auto simp: Reset_loop.simps(2) split: option.split metadata.split)

lemma random_scan_Some:
  "random_scan as m idx is = Some a \<Longrightarrow> \<exists>i. m a = Some i \<and> ai_connected i"
  by (induction "is") (auto simp: Let_def split: option.splits if_splits)

lemma rr_scan_Some: "rr_scan as m start n = Some y \<Longrightarrow> m (fst y) \<noteq> None"
  by (rule rr_scan.raw_induct [of "\<lambda>as m start n y. m (fst y) \<noteq> None" as m start n y])
    (auto simp: Let_def split: option.splits if_splits)

interpretation rr: selector rr_Reset rr_AddrList "\<lambda>rnd. rr_Select" rr_Put "\<lambda>r. known_addrs (rr_base r)"
proof unfold_locales
  fix s s' :: RoundRobinSelector and as ord rnd a e n
  show "rr_Reset s as = Returns s' \<Longrightarrow> known_addrs (rr_base s') = first_addrs as"
    by (auto simp: rr_Reset_def Reset_def known_addrs_empty dest!: Reset_loop_known split: outcome.splits)
  show "\<forall>a \<in> set as. Metadata a \<noteq> NilMetaMap \<Longrightarrow> \<exists>s'. rr_Reset s as = Returns s'"
    using Reset_loop_returns [of as "(rr_base s)\<lparr>addrMap := Map.empty\<rparr>"] by (auto simp: rr_Reset_def Reset_def)
  show "range_order (known_addrs (rr_base s)) ord \<Longrightarrow> set (rr_AddrList ord s) = ran (known_addrs (rr_base s))"
    by (simp add: rr_AddrList_def AddrList_def range_order_known set_range_values ran_known)
  show "rr_Select s = Some (s', a, e) \<Longrightarrow> known_addrs (rr_base s') = known_addrs (rr_base s)"
    by (auto simp: rr_Select_def Let_def split: if_splits option.splits)
  show "rr_Select s = Some (s', a, None) \<Longrightarrow> a \<in> ran (known_addrs (rr_base s))"
    by (auto simp: rr_Select_def Let_def ran_known dest: rr_scan_Some split: if_splits option.splits intro!: imageI ranI)
  show "known_addrs (rr_base (fst (rr_Put s n))) = known_addrs (rr_base s)" "snd (rr_Put s n) = None"
    by (simp_all add: rr_Put_def sel_Put_def)
qed

interpretation rnd: selector Reset AddrList "\<lambda>rnd b. Some (random_Select rnd b)" sel_Put known_addrs
proof unfold_locales
  fix s s' :: baseSelector and as ord rnd a e n
  show "Reset s as = Returns s' \<Longrightarrow> known_addrs s' = first_addrs as"
    by (auto simp: Reset_def known_addrs_empty dest!: Reset_loop_known)
  show "\<forall>a \<in> set as. Metadata a \<noteq> NilMetaMap \<Longrightarrow> \<exists>s'. Reset s as = Returns s'"
    by (simp add: Reset_def Reset_loop_returns)
  show "range_order (known_addrs s) ord \<Longrightarrow> set (AddrList ord s) = ran (known_addrs s)"
    by (simp add: AddrList_def range_order_known set_range_values ran_known)
  show "Some (random_Select rnd s) = Some (s', a, e) \<Longrightarrow> known_addrs s' = known_addrs s"
    by (auto simp: random_Select_def Let_def split: if_splits option.splits)
  show "Some (random_Select rnd s) = Some (s', a, None) \<Longrightarrow> a \<in> ran (known_addrs s)"
    by (auto simp: random_Select_def Let_def ran_known dest: random_scan_Some split: if_splits option.splits intro!: imageI ranI)
  show "known_addrs (fst (sel_Put s n)) = known_addrs s" "snd (sel_Put s n) = None"
    by (simp_all add: sel_Put_def)
qed

section \<open>What the selectors select\<close>

text \<open>
  Nothing in the sources ever sets \<^verbatim>\<open>connected\<close>. The invariant: no entry is connected, and
  the last entry of the slice is in the map unless the map is empty.
\<close>

definition base_inv :: "baseSelector \<Rightarrow> bool" where
  "base_inv b \<longleftrightarrow> (\<forall>i \<in> ran (addrMap b). \<not> ai_connected i)
     \<and> (addrMap b \<noteq> Map.empty \<longrightarrow> addrs b \<noteq> [] \<and> last (addrs b) \<in> dom (addrMap b))"

lemma base_inv_add:
  assumes "base_inv b"
  shows "base_inv (add_addr b a m)"
proof -
  have "\<forall>i \<in> ran (addrMap (add_addr b a m)). \<not> ai_connected i"
    using assms by (auto simp: base_inv_def add_addr_def ran_def Let_def)
  moreover have "nat (meta_int m ''weight'' 1) \<noteq> 0" using meta_int_positive [of m "''weight''"] by simp
  ultimately show ?thesis using add_addr_fields(2,3) [of b a m] by (auto simp: base_inv_def)
qed

lemma base_inv_Reset: "Reset b as = Returns b' \<Longrightarrow> base_inv b'"
proof -
  have loop: "Reset_loop as b = Returns b' \<Longrightarrow> base_inv b \<Longrightarrow> base_inv b'" for b
  proof (induction as arbitrary: b)
    case (Cons a as)
    from Reset_loop_step [OF Cons.prems(1)] Cons.IH Cons.prems(2) base_inv_add show ?case by blast
  qed simp
  have "base_inv (b\<lparr>addrMap := Map.empty\<rparr>)" by (simp add: base_inv_def)
  then show "Reset b as = Returns b' \<Longrightarrow> base_inv b'" using loop by (simp add: Reset_def)
qed

lemma base_inv_load: "base_inv b \<Longrightarrow> base_inv (add_load b a d)"
  by (auto simp: base_inv_def add_load_def ran_def split: option.splits)

lemma base_inv_new: "base_inv newBase"
  by (simp add: base_inv_def newBase_def)

text \<open>The uses of a selector, from the start; \<open>None\<close> when a use does not return.\<close>

datatype sel_op = OReset "Address list" | OSelect nat | OPut string

fun run_selector ::
  "('s \<Rightarrow> Address list \<Rightarrow> 's outcome) \<Rightarrow> (nat \<Rightarrow> 's \<Rightarrow> ('s \<times> Address \<times> err) option) \<Rightarrow> ('s \<Rightarrow> string \<Rightarrow> 's \<times> err)
     \<Rightarrow> sel_op list \<Rightarrow> 's \<Rightarrow> 's option" where
  "run_selector reset select put [] s = Some s"
| "run_selector reset select put (OReset as # ops) s =
     (case reset s as of Returns s' \<Rightarrow> run_selector reset select put ops s' | _ \<Rightarrow> None)"
| "run_selector reset select put (OSelect rnd # ops) s =
     (case select rnd s of Some (s', a, e) \<Rightarrow> run_selector reset select put ops s' | None \<Rightarrow> None)"
| "run_selector reset select put (OPut n # ops) s = run_selector reset select put ops (fst (put s n))"

lemma run_selector_inv:
  assumes "run_selector reset select put ops s = Some s'" "Q s"
    and "\<And>s as s'. Q s \<Longrightarrow> reset s as = Returns s' \<Longrightarrow> Q s'"
    and "\<And>s rnd s' a e. Q s \<Longrightarrow> select rnd s = Some (s', a, e) \<Longrightarrow> Q s'"
    and "\<And>s n. Q s \<Longrightarrow> Q (fst (put s n))"
  shows "Q s'"
  using assms(1,2)
proof (induction ops arbitrary: s)
  case (Cons op ops)
  show ?case
  proof (cases op)
    case (OReset as)
    then obtain s1 where s1: "reset s as = Returns s1" "run_selector reset select put ops s1 = Some s'"
      using Cons.prems(1) by (auto split: outcome.splits)
    show ?thesis by (rule Cons.IH [OF s1(2) assms(3) [OF Cons.prems(2) s1(1)]])
  next
    case (OSelect rnd)
    then obtain s1 a e where s1: "select rnd s = Some (s1, a, e)" "run_selector reset select put ops s1 = Some s'"
      using Cons.prems(1) by (auto split: option.splits)
    show ?thesis by (rule Cons.IH [OF s1(2) assms(4) [OF Cons.prems(2) s1(1)]])
  next
    case (OPut n)
    then show ?thesis using Cons.IH [OF _ assms(5) [OF Cons.prems(2)]] Cons.prems(1) by simp
  qed
qed simp

text \<open>The loop when nothing is connected: it stops at the last entry, with \<^verbatim>\<open>next\<close> at 0 again.\<close>

lemma rr_scan_last:
  assumes "\<forall>i \<in> ran m. \<not> ai_connected i" "n < length as" "last as \<in> dom m"
  shows "rr_scan as m 0 n = Some (last as, 0)"
  using assms(2)
proof (induction "length as - n" arbitrary: n rule: less_induct)
  case less
  have quiet: "m a = Some i \<Longrightarrow> \<not> ai_connected i" for a i using assms(1) by (auto intro: ranI)
  show ?case
  proof (cases "Suc n = length as")
    case True
    then have "as ! n = last as" using less.prems by (metis Zero_neq_Suc diff_Suc_1 last_conv_nth list.size(3))
    then show ?thesis using True assms(3) quiet by (subst rr_scan.simps) (auto simp: Let_def)
  next
    case False
    then have n: "Suc n < length as" using less.prems by simp
    then have "rr_scan as m 0 (Suc n) = Some (last as, 0)" by (intro less.hyps) auto
    then show ?thesis using n quiet by (subst rr_scan.simps) (auto simp: Let_def split: option.split)
  qed
qed

lemma rr_scan_empty: "rr_scan as Map.empty start n = None"
  using rr_scan_Some [of as Map.empty start n] by (cases "rr_scan as Map.empty start n") auto

definition rr_inv :: "RoundRobinSelector \<Rightarrow> bool" where
  "rr_inv r \<longleftrightarrow> base_inv (rr_base r) \<and> rr_next r = 0"

lemma rr_inv_Reset: "rr_inv s \<Longrightarrow> rr_Reset s as = Returns s' \<Longrightarrow> rr_inv s'"
  by (auto simp: rr_inv_def rr_Reset_def dest: base_inv_Reset split: outcome.splits)

lemma rr_Select_inv:
  assumes "rr_inv r"
  shows "rr_Select r =
    (if addrs (rr_base r) = [] then Some (r, zero_Address, Some ErrAddrListEmptyErr)
     else if addrMap (rr_base r) = Map.empty then None
     else Some (\<lparr>rr_base = add_load (rr_base r) (last (addrs (rr_base r))) 1, rr_next = 0\<rparr>,
                the (known_addrs (rr_base r) (last (addrs (rr_base r)))), None))"
proof (cases "addrs (rr_base r) = [] \<or> addrMap (rr_base r) = Map.empty")
  case True
  then show ?thesis using assms by (auto simp: rr_Select_def rr_inv_def rr_scan_empty Let_def)
next
  case False
  have "rr_scan (addrs (rr_base r)) (addrMap (rr_base r)) 0 0 = Some (last (addrs (rr_base r)), 0)"
    using assms False by (intro rr_scan_last) (auto simp: rr_inv_def base_inv_def)
  moreover obtain i where "addrMap (rr_base r) (last (addrs (rr_base r))) = Some i"
    using assms False by (auto simp: rr_inv_def base_inv_def)
  ultimately show ?thesis using assms False
    by (simp add: rr_Select_def rr_inv_def known_addrs_def Let_def)
qed

lemma rr_inv_run:
  assumes "run_selector rr_Reset (\<lambda>rnd. rr_Select) rr_Put ops NewRoundRobinSelector = Some r"
  shows "rr_inv r"
proof (rule run_selector_inv [OF assms])
  show "rr_inv NewRoundRobinSelector" by (simp add: rr_inv_def NewRoundRobinSelector_def base_inv_new)
  show "rr_inv s \<Longrightarrow> rr_Reset s as = Returns s' \<Longrightarrow> rr_inv s'" for s as s' by (rule rr_inv_Reset)
  show "rr_inv s \<Longrightarrow> rr_Select s = Some (s', a, e) \<Longrightarrow> rr_inv s'" for s rnd s' a e
    by (auto simp: rr_Select_inv split: if_splits) (auto simp: rr_inv_def base_inv_load)
  show "rr_inv s \<Longrightarrow> rr_inv (fst (rr_Put s n))" for s n
    by (simp add: rr_inv_def rr_Put_def sel_Put_def base_inv_load)
qed

text \<open>
  C30. The round-robin selector does not rotate. After any sequence of \<^verbatim>\<open>Reset\<close>, \<^verbatim>\<open>Select\<close> and
  \<^verbatim>\<open>Put\<close> on a new selector, \<^verbatim>\<open>Select\<close> returns the address of the last entry of its slice, the
  same at every call, and leaves \<^verbatim>\<open>next\<close> at 0; with an empty slice it reports
  \<^verbatim>\<open>ErrAddrListEmptyErr\<close>; and when the last \<^verbatim>\<open>Reset\<close> had no address but an earlier one had,
  it never returns.
\<close>

theorem rr_never_rotates:
  assumes "run_selector rr_Reset (\<lambda>rnd. rr_Select) rr_Put ops NewRoundRobinSelector = Some r"
  shows "rr_Select r =
    (if addrs (rr_base r) = [] then Some (r, zero_Address, Some ErrAddrListEmptyErr)
     else if addrMap (rr_base r) = Map.empty then None
     else Some (\<lparr>rr_base = add_load (rr_base r) (last (addrs (rr_base r))) 1, rr_next = 0\<rparr>,
                the (known_addrs (rr_base r) (last (addrs (rr_base r)))), None))"
  by (rule rr_Select_inv [OF rr_inv_run [OF assms]])

lemma random_Select_inv:
  assumes "base_inv s"
  shows "random_Select rnd s = (s, zero_Address,
    Some (if addrs s = [] then ErrAddrListEmptyErr else ErrNoAvailableAddressErr))"
proof -
  have "random_scan (addrs s) (addrMap s) idx is = None" for idx "is"
    using assms random_scan_Some [of "addrs s" "addrMap s" idx "is"]
    by (cases "random_scan (addrs s) (addrMap s) idx is") (auto simp: base_inv_def intro: ranI)
  then show ?thesis by (simp add: random_Select_def Let_def)
qed

lemma random_inv_run:
  assumes "run_selector Reset (\<lambda>rnd b. Some (random_Select rnd b)) sel_Put ops NewRandomSelector = Some b"
  shows "base_inv b"
proof (rule run_selector_inv [OF assms])
  show "base_inv NewRandomSelector" by (simp add: NewRandomSelector_def base_inv_new)
  show "base_inv s \<Longrightarrow> Some (random_Select rnd s) = Some (s', a, e) \<Longrightarrow> base_inv s'" for s rnd s' a e
    by (auto simp: random_Select_inv)
qed (auto simp: sel_Put_def base_inv_load dest: base_inv_Reset)

text \<open>
  The random selector never selects: after any sequence of \<^verbatim>\<open>Reset\<close>, \<^verbatim>\<open>Select\<close> and \<^verbatim>\<open>Put\<close> on
  a new one and whatever number is drawn, \<^verbatim>\<open>Select\<close> returns an error and changes nothing.
\<close>

lemma random_never_selects:
  assumes "run_selector Reset (\<lambda>rnd b. Some (random_Select rnd b)) sel_Put ops NewRandomSelector = Some b"
  shows "random_Select rnd b = (b, zero_Address,
    Some (if addrs b = [] then ErrAddrListEmptyErr else ErrNoAvailableAddressErr))"
  by (rule random_Select_inv [OF random_inv_run [OF assms]])

definition demo_addr :: "string \<Rightarrow> Address" where
  "demo_addr n = \<lparr>Addr = n, Metadata = OtherMeta\<rparr>"

definition demo_base :: baseSelector where
  "demo_base = add_addr (add_addr newBase (demo_addr ''a'') Map.empty) (demo_addr ''b'') Map.empty"

lemma demo_reset: "Reset newBase [demo_addr ''a'', demo_addr ''b''] = Returns demo_base"
  by (simp add: Reset_def Reset_loop.simps(2) demo_base_def newBase_def demo_addr_def add_addr_def Let_def)

lemma demo_base_fields:
  "addrs demo_base = [''a'', ''b'']" "addrMap demo_base \<noteq> Map.empty"
  "known_addrs demo_base ''b'' = Some (demo_addr ''b'')"
  by (simp_all add: demo_base_def add_addr_def newBase_def demo_addr_def meta_int_def known_addrs_def Let_def)

theorem rr_never_rotates_witness:
  "\<exists>r r'. run_selector rr_Reset (\<lambda>rnd. rr_Select) rr_Put [OReset [demo_addr ''a'', demo_addr ''b'']] NewRoundRobinSelector = Some r
     \<and> rr_Select r = Some (r', demo_addr ''b'', None) \<and> rr_next r' = 0"
proof -
  have run: "run_selector rr_Reset (\<lambda>rnd. rr_Select) rr_Put [OReset [demo_addr ''a'', demo_addr ''b'']] NewRoundRobinSelector
      = Some \<lparr>rr_base = demo_base, rr_next = 0\<rparr>"
    by (simp add: rr_Reset_def NewRoundRobinSelector_def demo_reset)
  from rr_never_rotates [OF run] run show ?thesis by (simp add: demo_base_fields)
qed

theorem random_never_selects_witness:
  "run_selector Reset (\<lambda>rnd b. Some (random_Select rnd b)) sel_Put [OReset [demo_addr ''a'', demo_addr ''b''], OSelect 5]
     NewRandomSelector = Some demo_base
   \<and> random_Select 3 demo_base = (demo_base, zero_Address, Some ErrNoAvailableAddressErr)"
proof -
  have run: "run_selector Reset (\<lambda>rnd b. Some (random_Select rnd b)) sel_Put [OReset [demo_addr ''a'', demo_addr ''b'']]
      NewRandomSelector = Some demo_base"
    by (simp add: NewRandomSelector_def demo_reset)
  have sel: "random_Select n demo_base = (demo_base, zero_Address, Some ErrNoAvailableAddressErr)" for n
    using random_never_selects [OF run, of n] by (simp add: demo_base_fields)
  show ?thesis using sel by (simp add: NewRandomSelector_def demo_reset)
qed

text \<open>
  After a \<^verbatim>\<open>Reset\<close> with at least one address, the round-robin selector's \<^verbatim>\<open>Select\<close> returns,
  without an error, and the address is one of those of the \<^verbatim>\<open>Reset\<close>, never a stale one of an
  earlier list, although the slice still holds those.
\<close>

lemma rr_selects_fresh:
  assumes "run_selector rr_Reset (\<lambda>rnd. rr_Select) rr_Put ops NewRoundRobinSelector = Some r"
    and "as \<noteq> []" "\<forall>a \<in> set as. Metadata a \<noteq> NilMetaMap"
  shows "\<exists>r1 r2 a. rr_Reset r as = Returns r1 \<and> rr_Select r1 = Some (r2, a, None) \<and> a \<in> set as"
proof -
  have "rr_inv r" using assms(1) by (rule rr_inv_run)
  obtain r1 where r1: "rr_Reset r as = Returns r1" using rr.reset_ok [OF assms(3)] by blast
  then have "rr_inv r1" using \<open>rr_inv r\<close> by (rule rr_inv_Reset [rotated])
  moreover obtain a0 as0 where "as = a0 # as0" using assms(2) by (cases as) auto
  then have "known_addrs (rr_base r1) (Addr a0) = Some a0"
    using rr.reset_known [OF r1] by (simp add: first_addrs_Cons)
  then have "addrMap (rr_base r1) \<noteq> Map.empty" by (auto simp: known_addrs_def)
  ultimately obtain r2 a where "rr_Select r1 = Some (r2, a, None)"
    by (auto simp: rr_Select_inv rr_inv_def base_inv_def)
  then show ?thesis using r1 rr.select_after_reset [OF r1] by blast
qed

theorem rr_selects_fresh_witness:
  "\<exists>r1 r2. rr_Reset \<lparr>rr_base = demo_base, rr_next = 0\<rparr> [demo_addr ''c''] = Returns r1
     \<and> rr_Select r1 = Some (r2, demo_addr ''c'', None)"
proof -
  have run: "run_selector rr_Reset (\<lambda>rnd. rr_Select) rr_Put [OReset [demo_addr ''a'', demo_addr ''b'']] NewRoundRobinSelector
      = Some \<lparr>rr_base = demo_base, rr_next = 0\<rparr>"
    by (simp add: rr_Reset_def NewRoundRobinSelector_def demo_reset)
  show ?thesis using rr_selects_fresh [OF run, of "[demo_addr ''c'']"] by (auto simp: demo_addr_def)
qed

text \<open>
  The random selector's \<^verbatim>\<open>Select\<close>, on any state: it succeeds exactly when some entry of the
  slice is connected, wherever the draw makes it start.
\<close>

lemma random_Select_iff:
  "(snd (snd (random_Select rnd b)) = None) =
     (\<exists>a i. a \<in> set (addrs b) \<and> addrMap b a = Some i \<and> ai_connected i)"
proof (cases "addrs b = []")
  case False
  let ?n = "length (addrs b)" and ?idx = "rnd mod length (addrs b)"
  have n: "0 < ?n" using False by simp
  have none: "random_scan (addrs b) (addrMap b) ?idx is = None \<longleftrightarrow>
      (\<forall>k \<in> set is. \<forall>i. addrMap b (addrs b ! ((?idx + k) mod ?n)) = Some i \<longrightarrow> \<not> ai_connected i)" for "is"
    by (induction "is") (auto simp: Let_def split: option.splits if_splits)
  have all: "\<exists>k < ?n. addrs b ! ((?idx + k) mod ?n) = a" if mem: "a \<in> set (addrs b)" for a
  proof -
    obtain p where p: "p < ?n" "addrs b ! p = a" using mem unfolding in_set_conv_nth by blast
    have "?idx < ?n" using n by simp
    then have "(?idx + (p + ?n - ?idx) mod ?n) mod ?n = p"
      using p(1) by (simp add: mod_add_right_eq)
    then show ?thesis using n p(2) by (intro exI [of _ "(p + ?n - ?idx) mod ?n"]) auto
  qed
  have "random_scan (addrs b) (addrMap b) ?idx [0..<?n] = None \<longleftrightarrow>
      (\<forall>a \<in> set (addrs b). \<forall>i. addrMap b a = Some i \<longrightarrow> \<not> ai_connected i)"
    unfolding none using all n by (fastforce simp: all_set_conv_all_nth)
  then show ?thesis using False by (auto simp: random_Select_def Let_def split: option.splits)
qed (simp add: random_Select_def)

end
