(* ===== verification/Balancer.thy ===== *)
theory Balancer
  imports Selectors
begin

text \<open>
  The balancer of \<^verbatim>\<open>src/balancer.go\<close>, with the type \<^verbatim>\<open>Update\<close> of \<^verbatim>\<open>src/naming.go\<close>. Its
  selector is a value of the interface \<^verbatim>\<open>Selector\<close>, a record of operations; what holds for
  every selector is proved in the locale of that interface. An operation that waits for
  ever, on the mutex or in a loop, \<open>Blocks\<close>.
\<close>

section \<open>Data\<close>

record 's SelectorOps =
  op_Reset :: "'s \<Rightarrow> Address list \<Rightarrow> 's outcome"
  op_AddrList :: "string list \<Rightarrow> 's \<Rightarrow> Address list"
  op_Select :: "nat \<Rightarrow> 's \<Rightarrow> ('s \<times> Address \<times> err) option"
  op_Put :: "'s \<Rightarrow> string \<Rightarrow> 's \<times> err"

definition rr_ops :: "RoundRobinSelector SelectorOps" where
  "rr_ops = \<lparr>op_Reset = rr_Reset, op_AddrList = rr_AddrList, op_Select = (\<lambda>rnd. rr_Select), op_Put = rr_Put\<rparr>"

definition random_ops :: "baseSelector SelectorOps" where
  "random_ops = \<lparr>op_Reset = Reset, op_AddrList = AddrList, op_Select = (\<lambda>rnd b. Some (random_Select rnd b)), op_Put = sel_Put\<rparr>"

record Update =
  u_Addr :: string
  u_Metadata :: metadata

text \<open>A channel of address lists with room for one.\<close>

record achan =
  ch_buf :: "Address list option"
  ch_closed :: bool

text \<open>
  \<open>b_r\<close> says whether there is a resolver; \<open>b_mu\<close> whether the mutex is held after the
  operation; \<open>b_waitCh\<close> whether that channel is not nil.
\<close>

record ('s, 'w) balancer =
  b_r :: bool
  b_w :: "'w option"
  b_s :: 's
  b_mu :: bool
  b_addrCh :: "achan option"
  b_waitCh :: bool
  b_done :: bool

section \<open>Operations\<close>

text \<open>\<^verbatim>\<open>NewBalancer\<close>; a nil selector is replaced by the default one, \<open>dflt\<close>.\<close>

definition NewBalancer :: "bool \<Rightarrow> 's \<Rightarrow> 's option \<Rightarrow> ('s, 'w) balancer" where
  "NewBalancer r dflt s =
     \<lparr>b_r = r, b_w = None, b_s = (case s of None \<Rightarrow> dflt | Some x \<Rightarrow> x), b_mu = False, b_addrCh = None,
      b_waitCh = False, b_done = False\<rparr>"

text \<open>\<^verbatim>\<open>watchAddrUpdates\<close>; \<open>nextw\<close> is what the watcher's \<^verbatim>\<open>Next\<close> returned.\<close>

definition updated_addrs :: "Update list \<Rightarrow> Address list" where
  "updated_addrs us = map (\<lambda>u. \<lparr>Addr = u_Addr u, Metadata = u_Metadata u\<rparr>) us"

definition watchAddrUpdates ::
  "'s SelectorOps \<Rightarrow> string list \<Rightarrow> ('s, 'w) balancer \<Rightarrow> go_error + Update list \<Rightarrow> (('s, 'w) balancer \<times> err) outcome" where
  "watchAddrUpdates ops ord b nextw =
     (case nextw of
        Inl e \<Rightarrow> Returns (b, Some e)
      | Inr updates \<Rightarrow>
          if b_mu b then Blocks
          else (case op_Reset ops (b_s b) (updated_addrs updates) of
                  Panics m \<Rightarrow> Panics m | Blocks \<Rightarrow> Blocks
                | Returns s' \<Rightarrow>
                    let b1 = b\<lparr>b_s := s'\<rparr>
                    in if b_done b1 then Returns (b1, Some ErrClientConnClosing)
                       else (case b_addrCh b1 of
                               None \<Rightarrow> Blocks
                             | Some ch \<Rightarrow>
                                 if ch_closed ch then Panics ''send on closed channel''
                                 else Returns (b1\<lparr>b_addrCh :=
                                        Some \<lparr>ch_buf = Some (op_AddrList ops ord s'), ch_closed = False\<rparr>\<rparr>, None))))"

definition balancer_Start ::
  "(string \<Rightarrow> go_error + 'w) \<Rightarrow> ('s, 'w) balancer \<Rightarrow> string \<Rightarrow> (('s, 'w) balancer \<times> err) outcome" where
  "balancer_Start resolve b target =
     (if b_mu b then Blocks
      else if b_done b then Returns (b, Some ErrClientConnClosing)
      else if \<not> b_r b then Returns (b, None)
      else (case resolve target of
              Inl e \<Rightarrow> Returns (b, Some e)
            | Inr w \<Rightarrow> Returns (b\<lparr>b_w := Some w, b_addrCh := Some \<lparr>ch_buf = None, ch_closed = False\<rparr>\<rparr>, None)))"

text \<open>
  \<^verbatim>\<open>Get\<close>: with \<^verbatim>\<open>blockingWait\<close> it polls an empty address list with the mutex held, so that the
  list never changes; after an error of the selector it returns with the mutex held.
\<close>

definition balancer_Get ::
  "'s SelectorOps \<Rightarrow> string list \<Rightarrow> nat \<Rightarrow> ('s, 'w) balancer \<Rightarrow> bool \<Rightarrow> (('s, 'w) balancer \<times> Address \<times> err) outcome" where
  "balancer_Get ops ord rnd b blockingWait =
     (if b_mu b then Blocks
      else if b_done b then Returns (b, zero_Address, Some ErrClientConnClosing)
      else if blockingWait \<and> length (op_AddrList ops ord (b_s b)) = 0 then Blocks
      else (case op_Select ops rnd (b_s b) of
              None \<Rightarrow> Blocks
            | Some (s', addr, None) \<Rightarrow> Returns (b\<lparr>b_s := s'\<rparr>, addr, None)
            | Some (s', addr, Some e) \<Rightarrow> Returns (b\<lparr>b_s := s', b_mu := True\<rparr>, addr, Some e)))"

text \<open>The function \<^verbatim>\<open>put\<close> that \<^verbatim>\<open>Get\<close> returns for an address.\<close>

definition balancer_put :: "'s SelectorOps \<Rightarrow> ('s, 'w) balancer \<Rightarrow> Address \<Rightarrow> ('s, 'w) balancer" where
  "balancer_put ops b addr = b\<lparr>b_s := fst (op_Put ops (b_s b) (Addr addr))\<rparr>"

definition Notify :: "('s, 'w) balancer \<Rightarrow> achan option" where
  "Notify b = b_addrCh b"

text \<open>\<^verbatim>\<open>Close\<close>; \<open>wclose\<close> is the watcher's \<^verbatim>\<open>Close\<close>.\<close>

definition balancer_Close :: "('w \<Rightarrow> 'w outcome) \<Rightarrow> ('s, 'w) balancer \<Rightarrow> ('s, 'w) balancer outcome" where
  "balancer_Close wclose b =
     (if b_mu b then Blocks
      else let b1 = b\<lparr>b_done := True\<rparr>
           in (case (case b_w b1 of
                       None \<Rightarrow> Returns b1
                     | Some w \<Rightarrow> (case wclose w of
                                    Returns w' \<Rightarrow> Returns (b1\<lparr>b_w := Some w'\<rparr>) | Panics m \<Rightarrow> Panics m | Blocks \<Rightarrow> Blocks)) of
                 Panics m \<Rightarrow> Panics m | Blocks \<Rightarrow> Blocks
               | Returns b2 \<Rightarrow>
                   let b3 = b2\<lparr>b_waitCh := False\<rparr>
                   in (case b_addrCh b3 of
                         None \<Rightarrow> Returns b3
                       | Some ch \<Rightarrow>
                           if ch_closed ch then Panics ''close of closed channel''
                           else Returns (b3\<lparr>b_addrCh := Some (ch\<lparr>ch_closed := True\<rparr>)\<rparr>))))"

section \<open>For every selector\<close>

text \<open>A balancer that runs: started, not closed, mutex free.\<close>

definition running :: "('s, 'w) balancer \<Rightarrow> bool" where
  "running b \<longleftrightarrow> \<not> b_mu b \<and> \<not> b_done b \<and> (\<exists>ch. b_addrCh b = Some ch \<and> \<not> ch_closed ch)"

context selector
begin

definition ops :: "'s SelectorOps" where
  "ops = \<lparr>op_Reset = reset, op_AddrList = addr_list, op_Select = select, op_Put = put\<rparr>"

lemma watch_notifies:
  assumes run: "running b" and meta: "\<forall>u \<in> set us. u_Metadata u \<noteq> NilMetaMap"
    and ord: "range_order (first_addrs (updated_addrs us)) ord"
  shows "\<exists>b' l. watchAddrUpdates ops ord b (Inr us) = Returns (b', None) \<and> running b'
    \<and> Notify b' = Some \<lparr>ch_buf = Some l, ch_closed = False\<rparr>
    \<and> set l = ran (first_addrs (updated_addrs us)) \<and> known (b_s b') = first_addrs (updated_addrs us)"
proof -
  have "\<forall>a \<in> set (updated_addrs us). Metadata a \<noteq> NilMetaMap" using meta by (auto simp: updated_addrs_def)
  then obtain s' where s': "reset (b_s b) (updated_addrs us) = Returns s'" using reset_ok by blast
  note k = reset_known [OF s']
  have "set (addr_list ord s') = ran (first_addrs (updated_addrs us))"
    using list_known [of s' ord] ord k by simp
  then show ?thesis using run s' k
    by (auto simp: watchAddrUpdates_def ops_def running_def Notify_def Let_def)
qed

lemma get_known:
  assumes "running b" "balancer_Get ops ord rnd b wait = Returns (b', a, None)"
  shows "a \<in> ran (known (b_s b)) \<and> known (b_s b') = known (b_s b) \<and> running b'
    \<and> known (b_s (balancer_put ops b' a)) = known (b_s b)"
proof -
  obtain s' where s: "select rnd (b_s b) = Some (s', a, None)" "b' = b\<lparr>b_s := s'\<rparr>"
    using assms by (auto simp: balancer_Get_def ops_def running_def split: if_splits option.splits)
  with select_known [OF s(1)] select_member [OF s(1)] assms(1) show ?thesis
    by (simp add: running_def balancer_put_def ops_def put_known)
qed

end

lemma rr_ops_eq: "rr.ops = rr_ops"
  by (simp add: rr.ops_def rr_ops_def)

lemma random_ops_eq: "rnd.ops = random_ops"
  by (simp add: rnd.ops_def random_ops_def)

section \<open>Properties\<close>

text \<open>
  C25. An update of the naming service reaches the users of the balancer: after
  \<^verbatim>\<open>watchAddrUpdates\<close> the notification channel holds exactly the addresses of the update (the
  first one given for each name), whatever it held before, and an address \<^verbatim>\<open>Get\<close> then
  returns without an error is one of them, also after a \<^verbatim>\<open>put\<close>.
\<close>

theorem watch_then_get:
  assumes "running b" "\<forall>u \<in> set us. u_Metadata u \<noteq> NilMetaMap"
    and "range_order (first_addrs (updated_addrs us)) ord"
  shows "\<exists>b' l. watchAddrUpdates rr_ops ord b (Inr us) = Returns (b', None)
    \<and> Notify b' = Some \<lparr>ch_buf = Some l, ch_closed = False\<rparr>
    \<and> set l = ran (first_addrs (updated_addrs us))
    \<and> (\<forall>rnd wait b2 a. balancer_Get rr_ops ord rnd b' wait = Returns (b2, a, None) \<longrightarrow>
         a \<in> set l \<and> running b2 \<and> known_addrs (rr_base (b_s (balancer_put rr_ops b2 a))) = first_addrs (updated_addrs us))"
proof -
  obtain b' l where w: "watchAddrUpdates rr_ops ord b (Inr us) = Returns (b', None)" "running b'"
      "Notify b' = Some \<lparr>ch_buf = Some l, ch_closed = False\<rparr>" "set l = ran (first_addrs (updated_addrs us))"
      "known_addrs (rr_base (b_s b')) = first_addrs (updated_addrs us)"
    using rr.watch_notifies [OF assms] unfolding rr_ops_eq by blast
  then show ?thesis using rr.get_known [OF w(2)] unfolding rr_ops_eq by (intro exI [of _ b'] exI [of _ l]) simp
qed

definition demo_updates :: "Update list" where
  "demo_updates = [\<lparr>u_Addr = ''a'', u_Metadata = OtherMeta\<rparr>]"

definition demo_balancer :: "'s \<Rightarrow> ('s, unit) balancer" where
  "demo_balancer s = \<lparr>b_r = True, b_w = Some (), b_s = s, b_mu = False, b_addrCh = Some \<lparr>ch_buf = None, ch_closed = False\<rparr>,
     b_waitCh = False, b_done = False\<rparr>"

lemma demo_running: "running (demo_balancer s)"
  by (simp add: running_def demo_balancer_def)

lemma demo_first: "first_addrs (updated_addrs demo_updates) = [''a'' \<mapsto> \<lparr>Addr = ''a'', Metadata = OtherMeta\<rparr>]"
  by (simp add: first_addrs_def updated_addrs_def demo_updates_def)

lemma demo_order: "range_order (first_addrs (updated_addrs demo_updates)) [''a'']"
  by (simp add: demo_first range_order_def)

theorem watch_then_get_witness:
  "\<exists>b' l. watchAddrUpdates rr_ops [''a''] (demo_balancer NewRoundRobinSelector) (Inr demo_updates) = Returns (b', None)
     \<and> Notify b' = Some \<lparr>ch_buf = Some l, ch_closed = False\<rparr> \<and> set l = {\<lparr>Addr = ''a'', Metadata = OtherMeta\<rparr>}"
proof -
  have "\<forall>u \<in> set demo_updates. u_Metadata u \<noteq> NilMetaMap" by (simp add: demo_updates_def)
  from watch_then_get [OF demo_running this demo_order, of NewRoundRobinSelector] show ?thesis
    by (auto simp: demo_first)
qed

text \<open>
  C26. A balancer on the round-robin selector serves: after an update with at least one
  address, \<^verbatim>\<open>Get\<close> returns without an error one of the updated addresses, with or without
  \<^verbatim>\<open>blockingWait\<close>, releases the mutex, and returns that same address again.
\<close>

theorem rr_balancer_serves:
  assumes "run_selector rr_Reset (\<lambda>rnd. rr_Select) rr_Put ops NewRoundRobinSelector = Some (b_s b)" "running b"
    and "us \<noteq> []" "\<forall>u \<in> set us. u_Metadata u \<noteq> NilMetaMap"
    and "range_order (first_addrs (updated_addrs us)) ord"
  shows "\<exists>b1 b2 b3 a. watchAddrUpdates rr_ops ord b (Inr us) = Returns (b1, None)
    \<and> balancer_Get rr_ops ord rnd b1 wait = Returns (b2, a, None) \<and> a \<in> set (updated_addrs us) \<and> \<not> b_mu b2
    \<and> balancer_Get rr_ops ord rnd b2 wait = Returns (b3, a, None)"
proof -
  obtain b1 l where w: "watchAddrUpdates rr_ops ord b (Inr us) = Returns (b1, None)" "running b1"
      "Notify b1 = Some \<lparr>ch_buf = Some l, ch_closed = False\<rparr>"
      "known_addrs (rr_base (b_s b1)) = first_addrs (updated_addrs us)"
    using rr.watch_notifies [OF assms(2,4,5)] unfolding rr_ops_eq by blast
  have "\<exists>s'. rr_Reset (b_s b) (updated_addrs us) = Returns s' \<and> b_s b1 = s'"
    using w(1) assms(2)
    by (auto simp: watchAddrUpdates_def rr_ops_def running_def Let_def split: outcome.splits if_splits option.splits)
  then have inv: "rr_inv (b_s b1)"
    using rr_inv_run [OF assms(1)] by (auto intro: rr_inv_Reset)
  obtain u us' where "us = u # us'" using assms(3) by (cases us) auto
  then have "known_addrs (rr_base (b_s b1)) (u_Addr u) \<noteq> None"
    using w(4) by (simp add: updated_addrs_def first_addrs_Cons)
  then have ne: "addrMap (rr_base (b_s b1)) \<noteq> Map.empty" by (auto simp: known_addrs_def)
  then have as: "addrs (rr_base (b_s b1)) \<noteq> []" using inv by (auto simp: rr_inv_def base_inv_def)
  let ?n = "last (addrs (rr_base (b_s b1)))"
  let ?s2 = "\<lparr>rr_base = add_load (rr_base (b_s b1)) ?n 1, rr_next = 0\<rparr>"
  let ?a = "the (known_addrs (rr_base (b_s b1)) ?n)"
  have sel: "rr_Select (b_s b1) = Some (?s2, ?a, None)" using rr_Select_inv [OF inv] ne as by simp
  have "rr_inv ?s2" using inv by (simp add: rr_inv_def base_inv_load)
  moreover have "addrMap (rr_base ?s2) \<noteq> Map.empty" using ne by (auto simp: add_load_def split: option.splits)
  ultimately obtain s3 where sel2: "rr_Select ?s2 = Some (s3, ?a, None)" using rr_Select_inv [of ?s2] as by simp
  have "set (rr_AddrList ord s) \<noteq> {}" if "known_addrs (rr_base s) = first_addrs (updated_addrs us)" for s
  proof -
    have "ran (first_addrs (updated_addrs us)) \<noteq> {}"
      using \<open>us = u # us'\<close> by (auto simp: updated_addrs_def first_addrs_Cons ran_def)
    then show ?thesis using rr.list_known [of s ord] assms(5) that by simp
  qed
  then have "rr_AddrList ord (b_s b1) \<noteq> []" "rr_AddrList ord ?s2 \<noteq> []" using w(4) by auto
  then have "balancer_Get rr_ops ord rnd b1 wait = Returns (b1\<lparr>b_s := ?s2\<rparr>, ?a, None)"
    "balancer_Get rr_ops ord rnd (b1\<lparr>b_s := ?s2\<rparr>) wait = Returns (b1\<lparr>b_s := s3\<rparr>, ?a, None)"
    using w(2) sel sel2 by (simp_all add: balancer_Get_def rr_ops_def running_def)
  moreover have "?a \<in> ran (first_addrs (updated_addrs us))" using rr.select_member [OF sel] w(4) by simp
  then have "?a \<in> set (updated_addrs us)" by (auto simp: first_addrs_def ran_def dest: map_of_SomeD)
  ultimately show ?thesis using w(1,2) by (auto simp: running_def)
qed

theorem rr_balancer_serves_witness:
  "\<exists>b1 b2 a. watchAddrUpdates rr_ops [''a''] (demo_balancer NewRoundRobinSelector) (Inr demo_updates) = Returns (b1, None)
     \<and> balancer_Get rr_ops [''a''] 0 b1 True = Returns (b2, a, None) \<and> Addr a = ''a''"
proof -
  have run: "run_selector rr_Reset (\<lambda>rnd. rr_Select) rr_Put [] NewRoundRobinSelector = Some (b_s (demo_balancer NewRoundRobinSelector))"
    by (simp add: demo_balancer_def)
  have "\<forall>u \<in> set demo_updates. u_Metadata u \<noteq> NilMetaMap" "demo_updates \<noteq> []" by (simp_all add: demo_updates_def)
  from rr_balancer_serves [OF run demo_running this(2,1) demo_order, of 0 True] show ?thesis
    by (auto simp: updated_addrs_def demo_updates_def)
qed

text \<open>
  C31. A balancer on the default selector deadlocks: the first \<^verbatim>\<open>Get\<close> on a running balancer
  that is not to wait for an address returns an error and leaves the mutex locked, after which every \<^verbatim>\<open>Get\<close>, \<^verbatim>\<open>Start\<close> and
  \<^verbatim>\<open>Close\<close> and the goroutine that watches for updates wait for ever.
\<close>

theorem default_balancer_deadlocks:
  assumes "run_selector Reset (\<lambda>rnd b. Some (random_Select rnd b)) sel_Put ops NewRandomSelector = Some (b_s b)" "running b"
  shows "\<exists>b' e. balancer_Get random_ops ord rnd b False = Returns (b', zero_Address, Some e)
    \<and> (\<forall>ord rnd wait. balancer_Get random_ops ord rnd b' wait = Blocks)
    \<and> (\<forall>resolve target. balancer_Start resolve b' target = Blocks)
    \<and> (\<forall>wclose. balancer_Close wclose b' = Blocks)
    \<and> (\<forall>ord us. watchAddrUpdates random_ops ord b' (Inr us) = Blocks)"
  using assms(2) random_Select_inv [OF random_inv_run [OF assms(1)], of rnd]
  by (simp add: balancer_Get_def balancer_Start_def balancer_Close_def watchAddrUpdates_def random_ops_def running_def)

theorem default_balancer_deadlocks_witness:
  "\<exists>b' e. balancer_Get random_ops [] 0 (demo_balancer NewRandomSelector) False = Returns (b', zero_Address, Some e)
     \<and> balancer_Close Returns b' = Blocks"
proof -
  have "run_selector Reset (\<lambda>rnd b. Some (random_Select rnd b)) sel_Put [] NewRandomSelector = Some (b_s (demo_balancer NewRandomSelector))"
    by (simp add: demo_balancer_def)
  from default_balancer_deadlocks [OF this demo_running, of "[]" 0] show ?thesis by blast
qed

text \<open>
  C32. After \<^verbatim>\<open>Close\<close>, \<^verbatim>\<open>Get\<close> and \<^verbatim>\<open>Start\<close> report that the balancer is closed, the watching
  goroutine stops with that error instead of sending on the closed channel, and a second
  \<^verbatim>\<open>Close\<close> panics.
\<close>

theorem close_stops_balancer:
  assumes "running b" "\<And>w. wclose w \<noteq> Blocks" "balancer_Close wclose b = Returns b'"
    and "\<forall>u \<in> set us. u_Metadata u \<noteq> NilMetaMap"
  shows "balancer_Get rr_ops ord rnd b' wait = Returns (b', zero_Address, Some ErrClientConnClosing)
    \<and> balancer_Start resolve b' target = Returns (b', Some ErrClientConnClosing)
    \<and> (\<exists>b2. watchAddrUpdates rr_ops ord b' (Inr us) = Returns (b2, Some ErrClientConnClosing))
    \<and> (\<exists>m. balancer_Close wclose b' = Panics m)"
proof -
  obtain ch where b': "\<not> b_mu b'" "b_done b'" "b_addrCh b' = Some ch" "ch_closed ch"
    using assms(1,3)
    by (auto simp: balancer_Close_def running_def Let_def split: if_splits option.splits outcome.splits)
  have "\<forall>a \<in> set (updated_addrs us). Metadata a \<noteq> NilMetaMap" using assms(4) by (auto simp: updated_addrs_def)
  then obtain s' where "rr_Reset (b_s b') (updated_addrs us) = Returns s'" using rr.reset_ok by blast
  then have "\<exists>b2. watchAddrUpdates rr_ops ord b' (Inr us) = Returns (b2, Some ErrClientConnClosing)"
    using b' by (simp add: watchAddrUpdates_def rr_ops_def)
  moreover have "\<exists>m. balancer_Close wclose b' = Panics m"
    using b' assms(2) by (auto simp: balancer_Close_def Let_def split: option.splits outcome.splits)
  ultimately show ?thesis using b' by (simp add: balancer_Get_def balancer_Start_def)
qed

theorem close_stops_balancer_witness:
  "\<exists>b' m. balancer_Close Returns (demo_balancer NewRoundRobinSelector) = Returns b'
     \<and> balancer_Get rr_ops [] 0 b' True = Returns (b', zero_Address, Some ErrClientConnClosing)
     \<and> balancer_Close Returns b' = Panics m"
proof -
  obtain b' where c: "balancer_Close Returns (demo_balancer NewRoundRobinSelector) = Returns b'"
    by (simp add: balancer_Close_def demo_balancer_def)
  from close_stops_balancer [OF demo_running _ c, of "[]" "[]" 0 True] c show ?thesis by auto
qed

end
