(* ===== verification/Watcher.thy ===== *)
theory Watcher
  imports Registry Balancer
begin

text \<open>
  The service watcher of \<^verbatim>\<open>src/watcher.go\<close>, an implementation of the interface \<^verbatim>\<open>Watcher\<close> of
  \<^verbatim>\<open>src/naming.go\<close>, and the resolvers of \<^verbatim>\<open>src/resolver_etcd.go\<close> and
  \<^verbatim>\<open>src/resolver_zk.go\<close> that make it. The store's \<^verbatim>\<open>WatchTree\<close> and the constructors of the
  stores are parameters. The watcher and its channel are also a step relation, where the
  store delivers batches of pairs while the client calls \<^verbatim>\<open>Next\<close> and \<^verbatim>\<open>Close\<close>.
\<close>

section \<open>Data\<close>

text \<open>A naming operation, and the channel of \<^verbatim>\<open>WatchTree\<close>: the batches not yet received.\<close>

datatype Operation = Add | Delete

type_synonym KVPair = "string \<times> kv_value"

record kvchan =
  kc_batches :: "KVPair list list"
  kc_closed :: bool

record 'st ServiceWatcher =
  sw_key :: string
  sw_registry :: 'st
  sw_updates :: "Update list"
  sw_cancelled :: bool
  sw_addressCh :: "kvchan option"
  sw_stopped :: bool

section \<open>Operations\<close>

text \<open>\<^verbatim>\<open>Close\<close> cancels the context and closes the stop channel, which can be done once.\<close>

definition watcher_Close :: "'st ServiceWatcher \<Rightarrow> 'st ServiceWatcher outcome" where
  "watcher_Close w =
     (let w1 = w\<lparr>sw_cancelled := True\<rparr>
      in if sw_stopped w1 then Panics ''close of closed channel'' else Returns (w1\<lparr>sw_stopped := True\<rparr>))"

definition newServiceWatcher :: "string \<Rightarrow> 'st \<Rightarrow> 'st ServiceWatcher" where
  "newServiceWatcher key registry =
     \<lparr>sw_key = ServiceRootPath @ key, sw_registry = registry, sw_updates = [], sw_cancelled = False,
      sw_addressCh = None, sw_stopped = False\<rparr>"

text \<open>\<^verbatim>\<open>&endpoint.MetaData\<close> is never nil; the map it points to may be, which reads as empty.\<close>

definition update_of :: "Endpoint \<Rightarrow> Update" where
  "update_of e = \<lparr>u_Addr = Address e,
     u_Metadata = MetaMap (case MetaData e of None \<Rightarrow> Map.empty | Some m \<Rightarrow> m)\<rparr>"

fun extractUpdates :: "KVPair list \<Rightarrow> Update list" where
  "extractUpdates [] = []"
| "extractUpdates ((k, v) # resp) =
     (case unmarshal_Endpoint v of
        (endpoint, None) \<Rightarrow> update_of endpoint # extractUpdates resp
      | (endpoint, Some e) \<Rightarrow> extractUpdates resp)"

text \<open>
  \<^verbatim>\<open>Next\<close>. The \<^verbatim>\<open>select\<close> waits until one of its cases can proceed; when both can, either is
  taken, which \<open>pick_stop\<close> decides. A closed channel gives the zero value, no pairs.
\<close>

definition open_watch ::
  "('st \<Rightarrow> string \<Rightarrow> go_error + kvchan) \<Rightarrow> 'st ServiceWatcher \<Rightarrow> 'st ServiceWatcher \<times> err" where
  "open_watch watchTree w =
     (case sw_addressCh w of
        Some _ \<Rightarrow> (w, None)
      | None \<Rightarrow> (case watchTree (sw_registry w) (sw_key w) of
                   Inl e \<Rightarrow> (w\<lparr>sw_addressCh := None\<rparr>, Some e)
                 | Inr ch \<Rightarrow> (w\<lparr>sw_addressCh := Some ch\<rparr>, None)))"

definition chan_recv :: "kvchan option \<Rightarrow> (KVPair list \<times> kvchan option) option" where
  "chan_recv ch =
     (case ch of
        None \<Rightarrow> None
      | Some c \<Rightarrow> (case kc_batches c of
                    b # bs \<Rightarrow> Some (b, Some (c\<lparr>kc_batches := bs\<rparr>))
                  | [] \<Rightarrow> if kc_closed c then Some ([], Some c) else None))"

definition Next ::
  "('st \<Rightarrow> string \<Rightarrow> go_error + kvchan) \<Rightarrow> bool \<Rightarrow> 'st ServiceWatcher
     \<Rightarrow> ('st ServiceWatcher \<times> Update list \<times> err) outcome" where
  "Next watchTree pick_stop w =
     (case open_watch watchTree w of
        (w1, Some e) \<Rightarrow> Returns (w1, [], Some e)
      | (w1, None) \<Rightarrow>
          (case chan_recv (sw_addressCh w1) of
             None \<Rightarrow> if sw_stopped w1 then Returns (w1, [], None) else Blocks
           | Some (pairs, ch) \<Rightarrow>
               if sw_stopped w1 \<and> pick_stop then Returns (w1, [], None)
               else let w2 = w1\<lparr>sw_addressCh := ch, sw_updates := extractUpdates pairs\<rparr>
                    in Returns (w2, sw_updates w2, None)))"

subsection \<open>The resolvers\<close>

text \<open>\<open>newClient\<close> is \<^verbatim>\<open>etcd.New\<close> or \<^verbatim>\<open>zookeeper.New\<close>.\<close>

record resolver =
  res_Config :: RegistryConfig

definition NewETCDResolver :: "RegistryConfig \<Rightarrow> resolver" where
  "NewETCDResolver cfg = \<lparr>res_Config = cfg\<rparr>"

definition ETCD_Resolve ::
  "(string list \<Rightarrow> store_Config \<Rightarrow> go_error + 'st) \<Rightarrow> resolver \<Rightarrow> string \<Rightarrow> go_error + 'st ServiceWatcher" where
  "ETCD_Resolve newClient er target =
     (if target = [] then Inl ErrNoTargetProvided
      else case newClient (rc_Addrs (res_Config er)) (WrapKVConfig (res_Config er)) of
             Inl e \<Rightarrow> Inl e
           | Inr client \<Rightarrow>
               (case TransformInvokePointToPath target of
                  Inl e \<Rightarrow> Inl e
                | Inr key \<Rightarrow> Inr (newServiceWatcher key client)))"

definition NewZKResolver :: "RegistryConfig \<Rightarrow> resolver" where
  "NewZKResolver cfg = \<lparr>res_Config = cfg\<rparr>"

definition ZK_Resolve ::
  "(string list \<Rightarrow> store_Config \<Rightarrow> go_error + 'st) \<Rightarrow> resolver \<Rightarrow> string \<Rightarrow> go_error + 'st ServiceWatcher" where
  "ZK_Resolve newClient zr target =
     (if target = [] then Inl ErrNoTargetProvided
      else case newClient (rc_Addrs (res_Config zr)) (WrapKVConfig (res_Config zr)) of
             Inl e \<Rightarrow> Inl e
           | Inr client \<Rightarrow>
               (case TransformInvokePointToPath target of
                  Inl e \<Rightarrow> Inl e
                | Inr key \<Rightarrow> Inr (newServiceWatcher key client)))"

section \<open>The watcher at work\<close>

text \<open>
  The state of a watched directory: the watcher, the batches the store has sent and what the
  calls of \<^verbatim>\<open>Next\<close> returned, both in order.
\<close>

record 'st watch_state =
  ws_w :: "'st ServiceWatcher"
  ws_sent :: "KVPair list list"
  ws_got :: "Update list list"

inductive watch_step ::
  "('st \<Rightarrow> string \<Rightarrow> go_error + kvchan) \<Rightarrow> 'st watch_state \<Rightarrow> 'st watch_state \<Rightarrow> bool"
  for watchTree where
  send: "\<lbrakk>sw_addressCh (ws_w s) = Some ch; \<not> kc_closed ch\<rbrakk> \<Longrightarrow>
     watch_step watchTree s (s\<lparr>ws_w := (ws_w s)\<lparr>sw_addressCh := Some (ch\<lparr>kc_batches := kc_batches ch @ [b]\<rparr>)\<rparr>,
                               ws_sent := ws_sent s @ [b]\<rparr>)"
| next_ok: "Next watchTree pick (ws_w s) = Returns (w', us, None) \<Longrightarrow>
     watch_step watchTree s (s\<lparr>ws_w := w',
       ws_sent := (case sw_addressCh (ws_w s) of
                     Some _ \<Rightarrow> ws_sent s
                   | None \<Rightarrow> ws_sent s @ (case watchTree (sw_registry (ws_w s)) (sw_key (ws_w s)) of
                                           Inr ch \<Rightarrow> kc_batches ch | Inl _ \<Rightarrow> [])),
       ws_got := ws_got s @ [us]\<rparr>)"
| next_error: "Next watchTree pick (ws_w s) = Returns (w', us, Some e) \<Longrightarrow> watch_step watchTree s (s\<lparr>ws_w := w'\<rparr>)"
| close_watch: "watcher_Close (ws_w s) = Returns w' \<Longrightarrow> watch_step watchTree s (s\<lparr>ws_w := w'\<rparr>)"
| close_chan: "sw_addressCh (ws_w s) = Some ch \<Longrightarrow>
     watch_step watchTree s (s\<lparr>ws_w := (ws_w s)\<lparr>sw_addressCh := Some (ch\<lparr>kc_closed := True\<rparr>)\<rparr>\<rparr>)"

inductive watch_reach ::
  "('st \<Rightarrow> string \<Rightarrow> go_error + kvchan) \<Rightarrow> string \<Rightarrow> 'st \<Rightarrow> 'st watch_state \<Rightarrow> bool"
  for watchTree key registry where
  start: "watch_reach watchTree key registry \<lparr>ws_w = newServiceWatcher key registry, ws_sent = [], ws_got = []\<rparr>"
| step: "watch_reach watchTree key registry s \<Longrightarrow> watch_step watchTree s s' \<Longrightarrow> watch_reach watchTree key registry s'"

inductive_cases watch_stepE: "watch_step watchTree s s'"

section \<open>Lemmas\<close>

definition pending_batches :: "'st ServiceWatcher \<Rightarrow> KVPair list list" where
  "pending_batches w = (case sw_addressCh w of None \<Rightarrow> [] | Some ch \<Rightarrow> kc_batches ch)"

definition chan_closed :: "'st ServiceWatcher \<Rightarrow> bool" where
  "chan_closed w = (case sw_addressCh w of None \<Rightarrow> False | Some ch \<Rightarrow> kc_closed ch)"

abbreviation solid :: "'a list list \<Rightarrow> 'a list list" where
  "solid xss \<equiv> filter (\<lambda>xs. xs \<noteq> []) xss"

lemma extractUpdates_append: "extractUpdates (xs @ ys) = extractUpdates xs @ extractUpdates ys"
  by (induction xs rule: extractUpdates.induct) (auto split: prod.splits option.splits)

text \<open>What a call of \<^verbatim>\<open>Next\<close> does with the channel it has or opens.\<close>

lemma Next_cases:
  assumes "Next watchTree pick w = Returns (w', us, e)"
  obtains (watch_error) x where "e = Some x" "us = []" "w' = w" "sw_addressCh w = None"
  | (stopped) w1 where "e = None" "us = []" "w' = w1" "open_watch watchTree w = (w1, None)" "sw_stopped w"
  | (batch) w1 ch b bs where "e = None" "us = extractUpdates b" "open_watch watchTree w = (w1, None)"
      "sw_addressCh w1 = Some ch" "kc_batches ch = b # bs"
      "w' = w1\<lparr>sw_addressCh := Some (ch\<lparr>kc_batches := bs\<rparr>), sw_updates := us\<rparr>"
  | (drained) w1 ch where "e = None" "us = []" "open_watch watchTree w = (w1, None)"
      "sw_addressCh w1 = Some ch" "kc_batches ch = []" "kc_closed ch"
      "w' = w1\<lparr>sw_addressCh := Some ch, sw_updates := []\<rparr>"
proof -
  obtain w1 e1 where o: "open_watch watchTree w = (w1, e1)" by force
  show thesis
  proof (cases e1)
    case (Some x)
    then have "sw_addressCh w = None" "w1 = w" using o
      by (auto simp: open_watch_def split: option.splits sum.splits)
    with assms o Some show thesis by (auto simp: Next_def intro: watch_error)
  next
    case None
    have st: "sw_stopped w1 = sw_stopped w" using o by (auto simp: open_watch_def split: option.splits sum.splits)
    show thesis
    proof (cases "sw_stopped w \<and> w' = w1 \<and> us = [] \<and> e = None")
      case True
      with o None stopped [of w1] show thesis by simp
    next
      case False
      with assms o None st show thesis
        by (auto simp: Next_def chan_recv_def Let_def split: option.splits list.splits if_splits
            intro: batch drained)
    qed
  qed
qed

lemma open_watch_chan:
  assumes "open_watch watchTree w = (w1, None)"
  shows "w1 = w \<and> sw_addressCh w \<noteq> None
    \<or> sw_addressCh w = None \<and> (\<exists>ch. watchTree (sw_registry w) (sw_key w) = Inr ch \<and> w1 = w\<lparr>sw_addressCh := Some ch\<rparr>)"
  using assms by (auto simp: open_watch_def split: option.splits sum.splits)

text \<open>
  What was sent is what was returned and what waits in the channel, in order; up to empty
  answers once the watcher or the channel is closed.
\<close>

definition watch_inv :: "'st watch_state \<Rightarrow> bool" where
  "watch_inv s \<longleftrightarrow>
     solid (map extractUpdates (ws_sent s)) = solid (ws_got s) @ solid (map extractUpdates (pending_batches (ws_w s)))
     \<and> (sw_stopped (ws_w s) \<or> chan_closed (ws_w s)
        \<or> map extractUpdates (ws_sent s) = ws_got s @ map extractUpdates (pending_batches (ws_w s)))"

lemma watch_inv_Next:
  assumes inv: "watch_inv s" and n: "Next watchTree pick (ws_w s) = Returns (w', us, None)"
  shows "watch_inv (s\<lparr>ws_w := w',
       ws_sent := (case sw_addressCh (ws_w s) of
                     Some _ \<Rightarrow> ws_sent s
                   | None \<Rightarrow> ws_sent s @ (case watchTree (sw_registry (ws_w s)) (sw_key (ws_w s)) of
                                           Inr ch \<Rightarrow> kc_batches ch | Inl _ \<Rightarrow> [])),
       ws_got := ws_got s @ [us]\<rparr>)" (is "watch_inv ?s'")
proof -
  have opened: "watch_inv (s\<lparr>ws_w := w1, ws_sent := ws_sent ?s'\<rparr>) \<and> sw_stopped w1 = sw_stopped (ws_w s)"
    if "open_watch watchTree (ws_w s) = (w1, None)" for w1
    using open_watch_chan [OF that] inv
    by (auto simp: watch_inv_def pending_batches_def chan_closed_def)
  from n show ?thesis
  proof (cases rule: Next_cases)
    case (stopped w1)
    with opened [OF stopped(4)] show ?thesis by (simp add: watch_inv_def)
  next
    case (batch w1 ch b bs)
    with opened [OF batch(3)] show ?thesis
      by (cases "us = []") (auto simp: watch_inv_def pending_batches_def chan_closed_def)
  next
    case (drained w1 ch)
    with opened [OF drained(3)] show ?thesis
      by (simp add: watch_inv_def pending_batches_def chan_closed_def)
  qed simp
qed

lemma watch_step_inv:
  assumes "watch_step watchTree s s'" "watch_inv s"
  shows "watch_inv s'"
  using assms
proof (cases rule: watch_step.cases)
  case (send ch b)
  with assms(2) show ?thesis by (auto simp: watch_inv_def pending_batches_def chan_closed_def)
next
  case (next_ok pick w' us)
  show ?thesis unfolding next_ok(1) by (rule watch_inv_Next [OF assms(2) next_ok(2)])
next
  case (next_error pick w' us e)
  from next_error(2) have "w' = ws_w s" by (cases rule: Next_cases) simp_all
  with assms(2) next_error(1) show ?thesis by (simp add: watch_inv_def)
next
  case (close_watch w')
  with assms(2) show ?thesis
    by (auto simp: watch_inv_def watcher_Close_def Let_def pending_batches_def chan_closed_def split: if_splits)
next
  case (close_chan ch)
  with assms(2) show ?thesis by (auto simp: watch_inv_def pending_batches_def chan_closed_def)
qed

lemma watch_reach_inv: "watch_reach watchTree key registry s \<Longrightarrow> watch_inv s"
proof (induction rule: watch_reach.induct)
  case start
  show ?case by (simp add: watch_inv_def pending_batches_def newServiceWatcher_def)
next
  case (step s s')
  then show ?case by (blast intro: watch_step_inv)
qed

section \<open>Properties\<close>

text \<open>
  C11. The watcher loses, repeats and reorders nothing: whatever the order of the store's
  messages and the calls of \<^verbatim>\<open>Next\<close> and \<^verbatim>\<open>Close\<close>, the updates extracted from the batches sent
  are those \<^verbatim>\<open>Next\<close> has returned followed by those that wait in the channel; after the
  watcher or the channel is closed this holds up to empty answers.
\<close>

theorem watch_delivers_in_order:
  assumes "watch_reach watchTree key registry s"
  shows "solid (map extractUpdates (ws_sent s)) = solid (ws_got s) @ solid (map extractUpdates (pending_batches (ws_w s)))
    \<and> (\<not> sw_stopped (ws_w s) \<and> \<not> chan_closed (ws_w s) \<longrightarrow>
         map extractUpdates (ws_sent s) = ws_got s @ map extractUpdates (pending_batches (ws_w s)))"
  using watch_reach_inv [OF assms] by (auto simp: watch_inv_def)

definition demo_pair :: KVPair where
  "demo_pair = (''/byterpc/services/a.b.c/calc/h:1'', Inr (JObj [(''address'', JStr ''h:1'')]))"

definition demo_watch :: "unit \<Rightarrow> string \<Rightarrow> go_error + kvchan" where
  "demo_watch st key = Inr \<lparr>kc_batches = [[demo_pair]], kc_closed = False\<rparr>"

definition demo_w :: "unit ServiceWatcher" where
  "demo_w = (newServiceWatcher ''/a.b.c/calc'' ())\<lparr>sw_addressCh := Some \<lparr>kc_batches = [], kc_closed = False\<rparr>,
     sw_updates := [\<lparr>u_Addr = ''h:1'', u_Metadata = MetaMap Map.empty\<rparr>]\<rparr>"

lemma demo_extract: "extractUpdates [demo_pair] = [\<lparr>u_Addr = ''h:1'', u_Metadata = MetaMap Map.empty\<rparr>]"
  by (simp add: demo_pair_def unmarshal_Endpoint_def decode_struct_def update_of_def zero_Endpoint_def Endpoint_put_def)

lemma demo_Next: "Next demo_watch True (newServiceWatcher ''/a.b.c/calc'' ())
    = Returns (demo_w, [\<lparr>u_Addr = ''h:1'', u_Metadata = MetaMap Map.empty\<rparr>], None)"
  by (simp add: Next_def open_watch_def newServiceWatcher_def demo_watch_def chan_recv_def demo_extract demo_w_def)

theorem watch_delivers_in_order_witness:
  "\<exists>s. watch_reach demo_watch ''/a.b.c/calc'' () s \<and> ws_sent s = [[demo_pair]] \<and> ws_w s = demo_w
    \<and> map extractUpdates (ws_sent s) = ws_got s @ map extractUpdates (pending_batches (ws_w s))"
proof -
  let ?s0 = "\<lparr>ws_w = newServiceWatcher ''/a.b.c/calc'' (), ws_sent = [], ws_got = []\<rparr> :: unit watch_state"
  let ?s1 = "\<lparr>ws_w = demo_w, ws_sent = [[demo_pair]], ws_got = [[\<lparr>u_Addr = ''h:1'', u_Metadata = MetaMap Map.empty\<rparr>]]\<rparr>"
  have "watch_step demo_watch ?s0 ?s1"
    using watch_step.next_ok [of demo_watch True ?s0] demo_Next
    by (simp add: newServiceWatcher_def demo_watch_def)
  then have r: "watch_reach demo_watch ''/a.b.c/calc'' () ?s1" by (rule watch_reach.step [OF watch_reach.start])
  from watch_delivers_in_order [OF r] r show ?thesis
    by (intro exI [of _ ?s1]) (simp add: demo_w_def newServiceWatcher_def chan_closed_def)
qed

text \<open>
  Closing a watcher: \<^verbatim>\<open>Close\<close> succeeds once and panics the second time, and after it
  \<^verbatim>\<open>Next\<close> never waits; it returns the batch that still waits in the channel, or nothing, or
  the error of starting the watch.
\<close>

lemma closed_watcher_never_waits:
  assumes "\<not> sw_stopped w"
  shows "\<exists>w1. watcher_Close w = Returns w1 \<and> (\<exists>m. watcher_Close w1 = Panics m)
    \<and> (\<forall>pick. \<exists>w2 us e. Next watchTree pick w1 = Returns (w2, us, e) \<and> sw_stopped w2
         \<and> (us = [] \<or> e = None \<and> (\<exists>w3 ch b. open_watch watchTree w1 = (w3, None) \<and> sw_addressCh w3 = Some ch
              \<and> b \<in> set (kc_batches ch) \<and> us = extractUpdates b)))"
proof -
  define w1 where "w1 = w\<lparr>sw_cancelled := True, sw_stopped := True\<rparr>"
  have c: "watcher_Close w = Returns w1" "watcher_Close w1 = Panics ''close of closed channel''" "sw_stopped w1"
    using assms by (simp_all add: watcher_Close_def w1_def)
  have st: "sw_stopped w3" if "open_watch watchTree w1 = (w3, x)" for w3 x
    using that c(3) by (auto simp: open_watch_def split: option.splits sum.splits)
  have "\<exists>w2 us e. Next watchTree pick w1 = Returns (w2, us, e)" for pick
    using st by (auto simp: Next_def chan_recv_def Let_def split: prod.splits option.splits list.splits)
  moreover have "sw_stopped w2 \<and> (us = [] \<or> e = None \<and> (\<exists>w3 ch b. open_watch watchTree w1 = (w3, None)
        \<and> sw_addressCh w3 = Some ch \<and> b \<in> set (kc_batches ch) \<and> us = extractUpdates b))"
    if "Next watchTree pick w1 = Returns (w2, us, e)" for pick w2 us e
    using that
  proof (cases rule: Next_cases)
    case (batch w3 ch b bs)
    with st [OF batch(3)] show ?thesis by auto
  qed (use c(3) st in auto)
  ultimately show ?thesis using c by blast
qed

lemma closed_watcher_never_waits_witness:
  "\<exists>w1. watcher_Close demo_w = Returns w1 \<and> (\<exists>m. watcher_Close w1 = Panics m)
    \<and> (\<exists>w2 us e. Next demo_watch True w1 = Returns (w2, us, e))"
  using closed_watcher_never_waits [of demo_w demo_watch] by (simp add: demo_w_def newServiceWatcher_def) blast

text \<open>
  C33. A watch that ends is not noticed: when the store has closed the channel, every call of
  \<^verbatim>\<open>Next\<close> returns at once an empty update and no error, and the balancer that receives it
  forgets all its addresses, so that a \<^verbatim>\<open>Get\<close> with \<^verbatim>\<open>blockingWait\<close> never returns.
\<close>

theorem ended_watch_clears_balancer:
  assumes "sw_addressCh w = Some \<lparr>kc_batches = [], kc_closed = True\<rparr>" "\<not> sw_stopped w" "running b"
  shows "\<exists>w'. Next watchTree pick w = Returns (w', [], None) \<and> Next watchTree pick w' = Returns (w', [], None)
    \<and> (\<exists>b'. watchAddrUpdates rr_ops [] b (Inr []) = Returns (b', None) \<and> known_addrs (rr_base (b_s b')) = Map.empty
         \<and> balancer_Get rr_ops [] rnd b' True = Blocks)"
proof -
  have m: "\<forall>u \<in> set []. u_Metadata u \<noteq> NilMetaMap" "first_addrs (updated_addrs []) = Map.empty"
    by (simp_all add: updated_addrs_def first_addrs_def)
  have "range_order (first_addrs (updated_addrs [])) []" unfolding m(2) by simp
  from rr.watch_notifies [OF assms(3) m(1) this] obtain b' l where
    b': "watchAddrUpdates rr_ops [] b (Inr []) = Returns (b', None)" "running b'"
      "known_addrs (rr_base (b_s b')) = Map.empty"
    unfolding rr_ops_eq m(2) by blast
  have "rr_AddrList [] (b_s b') = []"
    using rr.list_known [of "b_s b'" "[]"] b'(3) by simp
  then have "balancer_Get rr_ops [] rnd b' True = Blocks"
    using b'(2) by (simp add: balancer_Get_def running_def rr_ops_def)
  moreover have "Next watchTree pick w = Returns (w\<lparr>sw_updates := []\<rparr>, [], None)"
    "Next watchTree pick (w\<lparr>sw_updates := []\<rparr>) = Returns (w\<lparr>sw_updates := []\<rparr>, [], None)"
    using assms(1,2) by (simp_all add: Next_def open_watch_def chan_recv_def Let_def)
  ultimately show ?thesis using b' by blast
qed

theorem ended_watch_clears_balancer_witness:
  "\<exists>w' b'. Next demo_watch True (demo_w\<lparr>sw_addressCh := Some \<lparr>kc_batches = [], kc_closed = True\<rparr>\<rparr>) = Returns (w', [], None)
    \<and> watchAddrUpdates rr_ops [] (demo_balancer NewRoundRobinSelector) (Inr []) = Returns (b', None)
    \<and> balancer_Get rr_ops [] 0 b' True = Blocks"
  using ended_watch_clears_balancer [of "demo_w\<lparr>sw_addressCh := Some \<lparr>kc_batches = [], kc_closed = True\<rparr>\<rparr>",
      OF _ _ demo_running, of demo_watch True NewRoundRobinSelector 0]
  by (simp add: demo_w_def newServiceWatcher_def) blast

end
