(* ===== verification/LifeCycle.thy ===== *)
theory LifeCycle
  imports GoStd
begin

text \<open>
  The life-cycle controller of \<^verbatim>\<open>src/lifecycle.go\<close>. A callback acts on the world of the
  program, of type \<open>'w\<close>, and does not call the controller; \<open>lc_done\<close> says that the channel
  \<^verbatim>\<open>done\<close> is closed.
\<close>

record 'w lifeCycleController =
  lc_done :: bool
  onStartCallbacks :: "('w \<Rightarrow> 'w) list"
  onStopCallbacks :: "('w \<Rightarrow> 'w) list"

definition NewLifeCycleCtl :: "'w lifeCycleController" where
  "NewLifeCycleCtl = \<lparr>lc_done = False, onStartCallbacks = [], onStopCallbacks = []\<rparr>"

definition notifyStart :: "'w lifeCycleController \<Rightarrow> 'w \<Rightarrow> 'w" where
  "notifyStart c w = fold (\<lambda>f w. f w) (onStartCallbacks c) w"

definition notifyStop :: "'w lifeCycleController \<Rightarrow> 'w \<Rightarrow> 'w" where
  "notifyStop c w = fold (\<lambda>f w. f w) (onStopCallbacks c) w"

definition lc_Start :: "'w lifeCycleController \<Rightarrow> 'w \<Rightarrow> 'w" where
  "lc_Start c w = notifyStart c w"

text \<open>\<^verbatim>\<open>Stop\<close>: nothing if the channel is closed; otherwise the callbacks, then the channel.\<close>

definition lc_Stop :: "'w lifeCycleController \<Rightarrow> 'w \<Rightarrow> 'w lifeCycleController \<times> 'w" where
  "lc_Stop c w = (if lc_done c then (c, w) else (c\<lparr>lc_done := True\<rparr>, notifyStop c w))"

definition OnStart :: "'w lifeCycleController \<Rightarrow> ('w \<Rightarrow> 'w) \<Rightarrow> 'w lifeCycleController" where
  "OnStart c l = c\<lparr>onStartCallbacks := onStartCallbacks c @ [l]\<rparr>"

definition OnStop :: "'w lifeCycleController \<Rightarrow> ('w \<Rightarrow> 'w) \<Rightarrow> 'w lifeCycleController" where
  "OnStop c l = c\<lparr>onStopCallbacks := onStopCallbacks c @ [l]\<rparr>"

definition GetDoneChan :: "'w lifeCycleController \<Rightarrow> bool" where
  "GetDoneChan c = lc_done c"

section \<open>Uses of a controller\<close>

datatype 'w lc_op = LStart | LStop | LOnStart "'w \<Rightarrow> 'w" | LOnStop "'w \<Rightarrow> 'w"

fun lc_apply :: "'w lc_op \<Rightarrow> 'w lifeCycleController \<times> 'w \<Rightarrow> 'w lifeCycleController \<times> 'w" where
  "lc_apply LStart (c, w) = (c, lc_Start c w)"
| "lc_apply LStop (c, w) = lc_Stop c w"
| "lc_apply (LOnStart f) (c, w) = (OnStart c f, w)"
| "lc_apply (LOnStop f) (c, w) = (OnStop c f, w)"

text \<open>The callbacks registered for the stop by a sequence of uses.\<close>

fun stop_callbacks :: "'w lc_op list \<Rightarrow> ('w \<Rightarrow> 'w) list" where
  "stop_callbacks [] = []"
| "stop_callbacks (LOnStop f # ops) = f # stop_callbacks ops"
| "stop_callbacks (_ # ops) = stop_callbacks ops"

lemma stop_callbacks_run:
  "onStopCallbacks (fst (fold lc_apply ops (c, w))) = onStopCallbacks c @ stop_callbacks ops"
proof (induction ops arbitrary: c w)
  case (Cons op ops)
  obtain c' w' where s: "lc_apply op (c, w) = (c', w')" by fastforce
  have "onStopCallbacks c' = onStopCallbacks c @ (case op of LOnStop f \<Rightarrow> [f] | _ \<Rightarrow> [])"
    using s by (cases op) (auto simp: lc_Stop_def OnStart_def OnStop_def split: if_splits)
  then show ?case using Cons.IH [of c' w'] s by (cases op) auto
qed simp

text \<open>Without a start, only the first stop touches the world.\<close>

lemma done_quiet:
  "LStart \<notin> set ops \<Longrightarrow> lc_done c \<Longrightarrow> lc_done (fst (fold lc_apply ops (c, w))) \<and> snd (fold lc_apply ops (c, w)) = w"
proof (induction ops arbitrary: c)
  case (Cons op ops)
  then obtain c' where "lc_apply op (c, w) = (c', w)" "lc_done c'"
    by (cases op) (auto simp: lc_Stop_def OnStart_def OnStop_def)
  then show ?case using Cons.IH [of c'] Cons.prems(1) by simp
qed simp

lemma open_quiet:
  "LStart \<notin> set ops \<Longrightarrow> LStop \<notin> set ops \<Longrightarrow> \<not> lc_done c \<Longrightarrow>
   \<not> lc_done (fst (fold lc_apply ops (c, w))) \<and> snd (fold lc_apply ops (c, w)) = w"
proof (induction ops arbitrary: c)
  case (Cons op ops)
  then obtain c' where "lc_apply op (c, w) = (c', w)" "\<not> lc_done c'"
    by (cases op) (auto simp: OnStart_def OnStop_def)
  then show ?case using Cons.IH [of c'] Cons.prems(1,2) by simp
qed simp

text \<open>
  C34. The stop callbacks run exactly once: after any uses that start nothing, whatever their
  number of stops, the world is what the callbacks registered before the first stop, run in
  the order of their registration, have made of it; callbacks registered later never run.
\<close>

theorem stop_callbacks_once:
  assumes "LStart \<notin> set (before @ after)" "LStop \<notin> set before"
  shows "snd (fold lc_apply (before @ LStop # after) (NewLifeCycleCtl, w)) = fold (\<lambda>f w. f w) (stop_callbacks before) w
    \<and> lc_done (fst (fold lc_apply (before @ LStop # after) (NewLifeCycleCtl, w)))"
proof -
  obtain c w' where b: "fold lc_apply before (NewLifeCycleCtl, w) = (c, w')" by fastforce
  have "\<not> lc_done c" "w' = w"
    using open_quiet [of before NewLifeCycleCtl w] assms b by (simp_all add: NewLifeCycleCtl_def)
  moreover have "onStopCallbacks c = stop_callbacks before"
    using stop_callbacks_run [of before NewLifeCycleCtl w] b by (simp add: NewLifeCycleCtl_def)
  ultimately have "lc_apply LStop (c, w') = (c\<lparr>lc_done := True\<rparr>, fold (\<lambda>f w. f w) (stop_callbacks before) w)"
    by (simp add: lc_Stop_def notifyStop_def)
  then show ?thesis
    using b assms(1) done_quiet [of after "c\<lparr>lc_done := True\<rparr>" "fold (\<lambda>f w. f w) (stop_callbacks before) w"] by simp
qed

theorem stop_callbacks_once_witness:
  "snd (fold lc_apply ([LOnStop (\<lambda>n. n + 1), LOnStop (\<lambda>n. 2 * n)] @ LStop # [LStop, LOnStop (\<lambda>n. 0), LStop])
     (NewLifeCycleCtl, 3 :: nat)) = 8"
  using stop_callbacks_once [of "[LOnStop (\<lambda>n. n + 1), LOnStop (\<lambda>n. 2 * n)]" "[LStop, LOnStop (\<lambda>n. 0), LStop]" "3 :: nat"]
  by simp

end
