(* ===== verification/Dencoder.thy ===== *)
theory Dencoder
  imports GoStd
begin

unbundle bit_operations_syntax

text \<open>
  The length-prefixed frames of \<^verbatim>\<open>src/dencoder.go\<close>: the unsigned varints of
  \<^verbatim>\<open>encoding/binary\<close> on 64-bit words, the encoder that writes a varint length and the
  marshalled message, and the decoder that reads them back into a reused buffer.
  The protobuf package is a parameter: \<open>marshal\<close> and \<open>unmarshal\<close>.
\<close>

section \<open>Varints (encoding/binary)\<close>

definition MaxVarintLen64 :: nat where
  "MaxVarintLen64 = 10"

text \<open>\<^verbatim>\<open>PutUvarint(buf, x)\<close> writes into \<open>buf\<close> from index \<open>i\<close> and returns the length used.\<close>

function PutUvarint :: "bytes \<Rightarrow> nat \<Rightarrow> u64 \<Rightarrow> bytes \<times> nat" where
  "PutUvarint buf i x =
     (if 128 \<le> x then PutUvarint (buf[i := ucast x OR 128]) (Suc i) (drop_bit 7 x)
      else (buf[i := ucast x], Suc i))"
  by pat_completeness auto
termination
proof (relation "measure (\<lambda>(buf, i, x). unat x)")
  fix buf :: bytes and i and x :: u64
  assume "128 \<le> x"
  then have "128 \<le> unat x" by (simp add: word_le_nat_alt)
  then have "unat x div 2 ^ 7 < unat x" by simp
  then show "((buf[i := ucast x OR 128], Suc i, drop_bit 7 x), buf, i, x)
      \<in> measure (\<lambda>(buf, i, x). unat x)"
    by (simp add: drop_bit_eq_div unat_div_distrib)
qed simp

declare PutUvarint.simps [simp del]

text \<open>
  A reader is the bytes still to come and the error it reports after them
  (\<^verbatim>\<open>io.EOF\<close> for a stream that was closed).
\<close>

record reader =
  rdata :: bytes
  rend :: go_error

definition ReadByte :: "reader \<Rightarrow> (go_error + u8) \<times> reader" where
  "ReadByte r = (case rdata r of [] \<Rightarrow> (Inl (rend r), r) | b # bs \<Rightarrow> (Inr b, r\<lparr>rdata := bs\<rparr>))"

definition overflow :: go_error where
  "overflow = NewError ''binary: varint overflows a 64-bit integer''"

text \<open>The loop of \<^verbatim>\<open>ReadUvarint\<close> at iteration \<open>i\<close> with the value \<open>x\<close> and shift \<open>s\<close> so far.\<close>

function ReadUvarint_loop :: "nat \<Rightarrow> u64 \<Rightarrow> nat \<Rightarrow> reader \<Rightarrow> (u64 \<times> err) \<times> reader" where
  "ReadUvarint_loop i x s r =
     (if i < MaxVarintLen64
      then (case ReadByte r of
              (Inl e, r') \<Rightarrow> ((x, Some (if 0 < i \<and> e = EOF then ErrUnexpectedEOF else e)), r')
            | (Inr b, r') \<Rightarrow>
                if b < 128
                then (if i = MaxVarintLen64 - 1 \<and> 1 < b then ((x, Some overflow), r')
                      else ((x OR push_bit s (ucast b), None), r'))
                else ReadUvarint_loop (Suc i) (x OR push_bit s (ucast (b AND 127))) (s + 7) r')
      else ((x, Some overflow), r))"
  by pat_completeness auto
termination
  by (relation "measure (\<lambda>(i, x, s, r). MaxVarintLen64 - i)") auto

declare ReadUvarint_loop.simps [simp del]

definition ReadUvarint :: "reader \<Rightarrow> (u64 \<times> err) \<times> reader" where
  "ReadUvarint r = ReadUvarint_loop 0 0 0 r"

section \<open>Slices and io.ReadFull\<close>

text \<open>A byte slice: its backing array, whose length is the capacity, and its length.\<close>

record slice =
  arr :: bytes
  len :: nat

definition slice_bytes :: "slice \<Rightarrow> bytes" where
  "slice_bytes b = take (len b) (arr b)"

text \<open>
  \<^verbatim>\<open>io.ReadFull(r, buf)\<close>: fill \<open>buf\<close>; at the end of the stream \<^verbatim>\<open>io.EOF\<close> becomes
  \<^verbatim>\<open>io.ErrUnexpectedEOF\<close> when some, but not all, bytes were read.
\<close>

definition io_ReadFull :: "reader \<Rightarrow> slice \<Rightarrow> slice \<times> err \<times> reader" where
  "io_ReadFull r b =
     (let n = len b; got = take n (rdata r); k = length got;
          b' = b\<lparr>arr := got @ drop k (arr b)\<rparr>;
          r' = r\<lparr>rdata := drop n (rdata r)\<rparr>
      in if k = n then (b', None, r')
         else (b', Some (if 0 < k \<and> rend r = EOF then ErrUnexpectedEOF else rend r), r'))"

section \<open>Decoder\<close>

definition bootstrapLen :: nat where
  "bootstrapLen = 128"

record decoder =
  dr :: reader
  dbuf :: slice

definition NewDecoder :: "reader \<Rightarrow> decoder" where
  "NewDecoder r = \<lparr>dr = r, dbuf = \<lparr>arr = replicate bootstrapLen 0, len = 0\<rparr>\<rparr>"

text \<open>
  \<^verbatim>\<open>readFull\<close>: \<open>maxAlloc\<close> is the largest slice the runtime allocates; a larger
  \<^verbatim>\<open>make\<close> panics, as does a reslice with a negative bound.
\<close>

definition readFull :: "nat \<Rightarrow> reader \<Rightarrow> slice \<Rightarrow> (slice \<times> err \<times> reader) outcome" where
  "readFull maxAlloc r buf =
     (case ReadUvarint r of
        ((val, Some e), r') \<Rightarrow> Returns (buf\<lparr>len := 0\<rparr>, Some e, r')
      | ((val, None), r') \<Rightarrow>
          let size = sint val
          in if int (length (arr buf)) < size
             then (if int maxAlloc < size then Panics ''makeslice: len out of range''
                   else Returns (io_ReadFull r' \<lparr>arr = replicate (nat size) 0, len = nat size\<rparr>))
             else if size < 0 then Panics ''slice bounds out of range''
             else Returns (io_ReadFull r' (buf\<lparr>len := nat size\<rparr>)))"

text \<open>
  \<^verbatim>\<open>Decoder.Decode(m)\<close>: \<open>want\<close> is false for a nil \<open>m\<close>, whose value is discarded. The
  result is the decoder, the error, and the message when one was unmarshalled.
\<close>

definition Decode ::
  "(bytes \<Rightarrow> go_error + 'm) \<Rightarrow> nat \<Rightarrow> decoder \<Rightarrow> bool \<Rightarrow> (decoder \<times> err \<times> 'm option) outcome" where
  "Decode unmarshal maxAlloc d want =
     (case readFull maxAlloc (dr d) (dbuf d) of
        Panics p \<Rightarrow> Panics p
      | Blocks \<Rightarrow> Blocks
      | Returns (buf, e, r') \<Rightarrow>
          let d' = d\<lparr>dr := r', dbuf := buf\<rparr>
          in case e of
               Some er \<Rightarrow> Returns (d', Some er, None)
             | None \<Rightarrow>
                 if \<not> want then Returns (d', None, None)
                 else (case unmarshal (slice_bytes buf) of
                         Inl er \<Rightarrow> Returns (d', Some er, None)
                       | Inr m \<Rightarrow> Returns (d', None, Some m)))"

section \<open>Encoder\<close>

text \<open>
  The encoder's scratch array for the length, its protobuf buffer and the writer's state.
  \<open>wr\<close> is the writer's \<^verbatim>\<open>Write\<close>; \<open>marshal\<close> is \<^verbatim>\<open>proto.Buffer.Marshal\<close>, which appends
  to the buffer it is given.
\<close>

record 'w encoder =
  esize :: bytes
  ebuf :: bytes
  ew :: 'w

definition NewEncoder :: "'w \<Rightarrow> 'w encoder" where
  "NewEncoder w = \<lparr>esize = replicate MaxVarintLen64 0, ebuf = [], ew = w\<rparr>"

definition writeFrame :: "('w \<Rightarrow> bytes \<Rightarrow> 'w \<times> err) \<Rightarrow> 'w encoder \<Rightarrow> bytes \<Rightarrow> 'w encoder \<times> err" where
  "writeFrame wr e data =
     (let (sz, n) = PutUvarint (esize e) 0 (of_nat (length data));
          e1 = e\<lparr>esize := sz\<rparr>;
          (w1, err1) = wr (ew e1) (take n sz)
      in case err1 of
           Some er \<Rightarrow> (e1\<lparr>ew := w1\<rparr>, Some er)
         | None \<Rightarrow> let (w2, err2) = wr w1 data in (e1\<lparr>ew := w2\<rparr>, err2))"

definition Encode ::
  "(bytes \<Rightarrow> 'm \<Rightarrow> bytes \<times> err) \<Rightarrow> ('w \<Rightarrow> bytes \<Rightarrow> 'w \<times> err) \<Rightarrow> 'w encoder \<Rightarrow> 'm \<Rightarrow> 'w encoder \<times> err" where
  "Encode marshal wr e m =
     (case marshal (ebuf e) m of
        (b, Some er) \<Rightarrow> (e\<lparr>ebuf := []\<rparr>, Some er)
      | (b, None) \<Rightarrow>
          let (e1, er) = writeFrame wr (e\<lparr>ebuf := b\<rparr>) b
          in (e1\<lparr>ebuf := []\<rparr>, er))"

text \<open>
  \<^verbatim>\<open>encode(enc, m)\<close>: \<open>m\<close> is a protobuf message (\<open>Inr\<close>) or a value of another type,
  named by its type string (\<open>Inl\<close>).
\<close>

definition encode ::
  "(bytes \<Rightarrow> 'm \<Rightarrow> bytes \<times> err) \<Rightarrow> ('w \<Rightarrow> bytes \<Rightarrow> 'w \<times> err) \<Rightarrow> 'w encoder \<Rightarrow> string + 'm
     \<Rightarrow> 'w encoder \<times> err" where
  "encode marshal wr e m =
     (case m of
        Inr pb \<Rightarrow> Encode marshal wr e pb
      | Inl tn \<Rightarrow> (e, Some (NewError (tn @ '' does not implement proto.Message''))))"


section \<open>Reference definitions\<close>

text \<open>The bytes of a varint as a list, the reference for both directions, and a frame.\<close>

function uvarint :: "u64 \<Rightarrow> bytes" where
  "uvarint x = (if 128 \<le> x then (ucast x OR 128) # uvarint (drop_bit 7 x) else [ucast x])"
  by pat_completeness auto
termination
  by (relation "measure unat") (auto simp: word_le_nat_alt unat_drop_bit_7)

declare uvarint.simps [simp del]

definition frame :: "bytes \<Rightarrow> bytes" where
  "frame data = uvarint (of_nat (length data)) @ data"

text \<open>
  The contract of \<^verbatim>\<open>io.Writer\<close> that the encoder relies on: a \<^verbatim>\<open>Write\<close> with no error
  has written all of its argument.
\<close>

definition writer_ok :: "('w \<Rightarrow> bytes \<Rightarrow> 'w \<times> err) \<Rightarrow> ('w \<Rightarrow> bytes) \<Rightarrow> bool" where
  "writer_ok wr out \<longleftrightarrow> (\<forall>w b w'. wr w b = (w', None) \<longrightarrow> out w' = out w @ b)"

text \<open>Encoding and decoding a sequence of messages, up to the first error.\<close>

fun Encode_all ::
  "(bytes \<Rightarrow> 'm \<Rightarrow> bytes \<times> err) \<Rightarrow> ('w \<Rightarrow> bytes \<Rightarrow> 'w \<times> err) \<Rightarrow> 'w encoder \<Rightarrow> 'm list \<Rightarrow> 'w encoder \<times> err" where
  "Encode_all marshal wr e [] = (e, None)"
| "Encode_all marshal wr e (m # ms) =
     (case Encode marshal wr e m of
        (e', Some er) \<Rightarrow> (e', Some er)
      | (e', None) \<Rightarrow> Encode_all marshal wr e' ms)"

fun Decode_all ::
  "(bytes \<Rightarrow> go_error + 'm) \<Rightarrow> nat \<Rightarrow> decoder \<Rightarrow> nat \<Rightarrow> (decoder \<times> err \<times> 'm list) outcome" where
  "Decode_all unmarshal maxAlloc d 0 = Returns (d, None, [])"
| "Decode_all unmarshal maxAlloc d (Suc n) =
     (case Decode unmarshal maxAlloc d True of
        Panics p \<Rightarrow> Panics p
      | Blocks \<Rightarrow> Blocks
      | Returns (d', Some er, _) \<Rightarrow> Returns (d', Some er, [])
      | Returns (d', None, m) \<Rightarrow>
          (case Decode_all unmarshal maxAlloc d' n of
             Panics p \<Rightarrow> Panics p
           | Blocks \<Rightarrow> Blocks
           | Returns (d'', er, ms) \<Rightarrow> Returns (d'', er, (case m of Some x \<Rightarrow> x # ms | None \<Rightarrow> ms))))"

text \<open>A marshaller and a writer for the concrete examples.\<close>

definition demo_marshal :: "bytes \<Rightarrow> bytes \<Rightarrow> bytes \<times> err" where
  "demo_marshal buf m = (buf @ m, None)"

definition demo_write :: "bytes \<Rightarrow> bytes \<Rightarrow> bytes \<times> err" where
  "demo_write w b = (w @ b, None)"

section \<open>Varint lemmas\<close>

lemma length_uvarint: "unat x < 2 ^ (7 * k) \<Longrightarrow> 0 < k \<Longrightarrow> length (uvarint x) \<le> k"
proof (induction x arbitrary: k rule: uvarint.induct)
  case (1 x)
  show ?case
  proof (cases "128 \<le> x")
    case True
    then have ge: "128 \<le> unat x" by (simp add: word_le_nat_alt)
    obtain j where k: "k = Suc j" using "1.prems"(2) by (cases k) auto
    have j: "0 < j" using ge "1.prems"(1) k by (cases j) auto
    have "unat (drop_bit 7 x) < 2 ^ (7 * j)"
      using "1.prems"(1) by (simp only: unat_drop_bit_7) (simp add: k power_add less_mult_imp_div_less mult.commute)
    from "1.IH" [OF True this j] True k show ?thesis
      by (subst uvarint.simps) simp
  next
    case False
    then show ?thesis using "1.prems" by (subst uvarint.simps) simp
  qed
qed

lemma length_uvarint_max: "length (uvarint x) \<le> MaxVarintLen64"
  using length_uvarint [of x 10] unsigned_less [of x, where ?'a = nat]
  by (simp add: MaxVarintLen64_def)

lemma PutUvarint_uvarint:
  "i + length (uvarint x) \<le> length buf \<Longrightarrow>
   PutUvarint buf i x = (buf', n) \<Longrightarrow>
   n = i + length (uvarint x) \<and> take n buf' = take i buf @ uvarint x \<and> length buf' = length buf"
proof (induction buf i x arbitrary: buf' n rule: PutUvarint.induct)
  case (1 buf i x)
  show ?case
  proof (cases "128 \<le> x")
    case True
    then have u: "uvarint x = (ucast x OR 128) # uvarint (drop_bit 7 x)"
      by (subst uvarint.simps) simp
    have p: "PutUvarint (buf[i := ucast x OR 128]) (Suc i) (drop_bit 7 x) = (buf', n)"
      using "1.prems"(2) True by (subst (asm) PutUvarint.simps) simp
    have l: "Suc i + length (uvarint (drop_bit 7 x)) \<le> length (buf[i := ucast x OR 128])"
      using "1.prems"(1) by (simp add: u)
    from "1.IH" [OF True l p] u "1.prems"(1) show ?thesis
      by (auto simp: take_Suc_conv_app_nth)
  next
    case False
    then have u: "uvarint x = [ucast x]" by (subst uvarint.simps) simp
    from "1.prems" False u show ?thesis
      by (subst (asm) PutUvarint.simps) (auto simp: take_Suc_conv_app_nth)
  qed
qed

lemma u8_consts: "(127 :: u8) = mask 7" "(128 :: u8) = push_bit 7 1"
  by (simp_all add: mask_eq_exp_minus_1)

lemma low_byte_more:
  fixes x :: u64
  shows "128 \<le> (ucast x OR 128 :: u8)"
    and "ucast ((ucast x OR 128 :: u8) AND 127) = (take_bit 7 x :: u64)"
proof -
  show "128 \<le> (ucast x OR 128 :: u8)"
    by (rule le_word_or1)
  show "ucast ((ucast x OR 128 :: u8) AND 127) = (take_bit 7 x :: u64)"
    unfolding u8_consts take_bit_eq_mask [symmetric]
    by (rule bit_word_eqI) (auto simp: bit_simps)
qed

lemma or_split_7:
  fixes x :: u64
  shows "(x0 OR push_bit s (take_bit 7 x)) OR push_bit (s + 7) (drop_bit 7 x) = x0 OR push_bit s x"
proof (rule bit_word_eqI)
  fix n assume "n < LENGTH(64)"
  show "bit ((x0 OR push_bit s (take_bit 7 x)) OR push_bit (s + 7) (drop_bit 7 x)) n
      = bit (x0 OR push_bit s x) n"
    by (cases "s + 7 \<le> n") (auto simp: bit_simps)
qed

lemma byte_small:
  fixes x :: u64
  assumes "\<not> 128 \<le> x"
  shows "(ucast x :: u8) < 128" and "ucast (ucast x :: u8) = x"
    and "1 < (ucast x :: u8) \<longleftrightarrow> 1 < x"
proof -
  have x: "unat x < 128" using assms by (simp add: word_le_nat_alt)
  then have u: "unat (ucast x :: u8) = unat x"
    by (simp add: unsigned_ucast_eq take_bit_nat_eq_self)
  with x show "(ucast x :: u8) < 128" by (simp add: word_less_nat_alt)
  show "1 < (ucast x :: u8) \<longleftrightarrow> 1 < x" by (simp add: word_less_nat_alt u)
  have "unat (ucast (ucast x :: u8) :: u64) = unat x"
    using x u by (simp add: unsigned_ucast_eq [of "ucast x :: u8"] take_bit_nat_eq_self)
  then show "ucast (ucast x :: u8) = x" by (simp only: word_unat_eq_iff)
qed

lemma ReadUvarint_loop_uvarint:
  "i \<le> 9 \<Longrightarrow> unat x < 2 ^ (64 - 7 * i) \<Longrightarrow> rdata r = uvarint x @ rest \<Longrightarrow>
   ReadUvarint_loop i x0 (7 * i) r = ((x0 OR push_bit (7 * i) x, None), r\<lparr>rdata := rest\<rparr>)"
proof (induction x arbitrary: i x0 r rule: uvarint.induct)
  case (1 x)
  show ?case
  proof (cases "128 \<le> x")
    case True
    then have ge: "128 \<le> unat x" by (simp add: word_le_nat_alt)
    have u: "uvarint x = (ucast x OR 128) # uvarint (drop_bit 7 x)"
      using True by (subst uvarint.simps) simp
    have i: "i < 9"
    proof (rule ccontr)
      assume "\<not> i < 9" with "1.prems"(1) have "i = 9" by simp
      with "1.prems"(2) ge show False by simp
    qed
    then have "64 - 7 * i = 7 + (64 - 7 * Suc i)" by simp
    with "1.prems"(2) have "unat (drop_bit 7 x) < 2 ^ (64 - 7 * Suc i)"
      by (simp only: unat_drop_bit_7 power_add) (simp add: less_mult_imp_div_less mult.commute)
    then have "ReadUvarint_loop (Suc i) (x0 OR push_bit (7 * i) (take_bit 7 x)) (7 * Suc i)
        (r\<lparr>rdata := uvarint (drop_bit 7 x) @ rest\<rparr>) =
        ((x0 OR push_bit (7 * i) x, None), r\<lparr>rdata := rest\<rparr>)"
      using "1.IH" [OF True, of "Suc i" "r\<lparr>rdata := uvarint (drop_bit 7 x) @ rest\<rparr>"] i
        or_split_7 [of x0 "7 * i" x]
      by (simp add: add.commute)
    with i low_byte_more [of x] show ?thesis
      by (subst ReadUvarint_loop.simps)
        (simp add: ReadByte_def "1.prems"(3) u MaxVarintLen64_def not_less [symmetric] add.commute)
  next
    case False
    then have u: "uvarint x = [ucast x]" by (subst uvarint.simps) simp
    have "i = 9 \<Longrightarrow> \<not> 1 < x" using "1.prems"(2) by (auto simp: word_less_nat_alt)
    with "1.prems" byte_small [OF False] u show ?thesis
      by (subst ReadUvarint_loop.simps) (auto simp: ReadByte_def MaxVarintLen64_def)
  qed
qed

lemma ReadUvarint_uvarint:
  "rdata r = uvarint x @ rest \<Longrightarrow> ReadUvarint r = ((x, None), r\<lparr>rdata := rest\<rparr>)"
  using ReadUvarint_loop_uvarint [of 0 x r rest 0] unsigned_less [of x, where ?'a = nat]
  by (simp add: ReadUvarint_def)


section \<open>Frames\<close>

lemma writer_okD: "writer_ok wr out \<Longrightarrow> wr w b = (w', None) \<Longrightarrow> out w' = out w @ b"
  by (simp add: writer_ok_def)

lemma sint_small: "n < 2 ^ 63 \<Longrightarrow> sint (of_nat n :: u64) = int n"
  by (simp add: signed_of_nat signed_take_bit_int_eq_self)

lemma writeFrame_frame:
  assumes sz: "length (esize e) = MaxVarintLen64"
    and wr: "writer_ok wr out"
    and ok: "writeFrame wr e data = (e', None)"
  shows "out (ew e') = out (ew e) @ frame data \<and> length (esize e') = MaxVarintLen64 \<and> ebuf e' = ebuf e"
proof -
  obtain sz' n where p: "PutUvarint (esize e) 0 (of_nat (length data)) = (sz', n)" by fastforce
  have put: "take n sz' = uvarint (of_nat (length data))" "length sz' = MaxVarintLen64"
    using PutUvarint_uvarint [OF _ p] sz length_uvarint_max by auto
  obtain w1 where w1: "wr (ew e) (take n sz') = (w1, None)"
    using ok p by (auto simp: writeFrame_def Let_def split: prod.splits option.splits)
  from ok p w1 put show ?thesis
    by (auto simp: writeFrame_def Let_def frame_def dest!: writer_okD [OF wr] split: prod.splits)
qed

lemma Encode_frame:
  assumes sz: "length (esize e) = MaxVarintLen64" and buf: "ebuf e = []"
    and wr: "writer_ok wr out"
    and mar: "marshal [] m = (enc, None)"
    and ok: "Encode marshal wr e m = (e', None)"
  shows "out (ew e') = out (ew e) @ frame enc \<and> length (esize e') = MaxVarintLen64 \<and> ebuf e' = []"
proof -
  obtain e1 where "writeFrame wr (e\<lparr>ebuf := enc\<rparr>) enc = (e1, None)" and e': "e' = e1\<lparr>ebuf := []\<rparr>"
    using ok mar buf by (auto simp: Encode_def split: prod.splits)
  from writeFrame_frame [OF _ wr this(1)] sz e' show ?thesis by simp
qed

lemma io_ReadFull_enough:
  assumes "rdata r = data @ rest" "len b = length data" "len b \<le> length (arr b)"
  shows "\<exists>b'. io_ReadFull r b = (b', None, r\<lparr>rdata := rest\<rparr>) \<and> slice_bytes b' = data"
  using assms by (simp add: io_ReadFull_def slice_bytes_def Let_def)

lemma readFull_frame:
  assumes r: "rdata r = frame data @ rest"
    and size: "length data < 2 ^ 63" "length data \<le> maxAlloc"
  shows "\<exists>b. readFull maxAlloc r buf = Returns (b, None, r\<lparr>rdata := rest\<rparr>) \<and> slice_bytes b = data"
proof -
  have v: "ReadUvarint r = ((of_nat (length data), None), r\<lparr>rdata := data @ rest\<rparr>)"
    using ReadUvarint_uvarint r by (simp add: frame_def)
  let ?fresh = "\<lparr>arr = replicate (length data) 0, len = length data\<rparr>"
  let ?reuse = "buf\<lparr>len := length data\<rparr>"
  show ?thesis
    using io_ReadFull_enough [of "r\<lparr>rdata := data @ rest\<rparr>" data rest ?fresh]
      io_ReadFull_enough [of "r\<lparr>rdata := data @ rest\<rparr>" data rest ?reuse] size
    by (auto simp: readFull_def v sint_small Let_def)
qed

lemma Encode_all_frames:
  assumes wr: "writer_ok wr out"
    and mar: "\<And>m. m \<in> set ms \<Longrightarrow> marshal [] m = (enc m, None)"
  shows "length (esize e) = MaxVarintLen64 \<Longrightarrow> ebuf e = [] \<Longrightarrow> Encode_all marshal wr e ms = (e', None) \<Longrightarrow>
    out (ew e') = out (ew e) @ concat (map (\<lambda>m. frame (enc m)) ms)"
  using mar
proof (induction ms arbitrary: e)
  case Nil
  then show ?case by simp
next
  case (Cons m ms)
  obtain e1 where e1: "Encode marshal wr e m = (e1, None)"
    and rest: "Encode_all marshal wr e1 ms = (e', None)"
    using Cons.prems(3) by (auto split: prod.splits option.splits)
  have "marshal [] m = (enc m, None)" using Cons.prems(4) by simp
  from Encode_frame [OF Cons.prems(1,2) wr this e1] Cons.IH [OF _ _ rest] Cons.prems(4)
  show ?case by simp
qed

lemma Decode_frame:
  assumes "rdata (dr d) = frame (enc m) @ rest" "length (enc m) < 2 ^ 63" "length (enc m) \<le> maxAlloc"
    and "unmarshal (enc m) = Inr m"
  shows "\<exists>d'. Decode unmarshal maxAlloc d True = Returns (d', None, Some m) \<and>
    dr d' = (dr d)\<lparr>rdata := rest\<rparr>"
  using readFull_frame [OF assms(1-3), of "dbuf d"] assms(4) by (auto simp: Decode_def Let_def)

lemma Decode_all_frames:
  assumes "\<And>m. m \<in> set ms \<Longrightarrow> length (enc m) < 2 ^ 63 \<and> length (enc m) \<le> maxAlloc \<and> unmarshal (enc m) = Inr m"
  shows "rdata (dr d) = concat (map (\<lambda>m. frame (enc m)) ms) @ rest \<Longrightarrow>
    \<exists>d'. Decode_all unmarshal maxAlloc d (length ms) = Returns (d', None, ms) \<and> rdata (dr d') = rest"
  using assms
proof (induction ms arbitrary: d)
  case (Cons m ms)
  obtain d1 where d1: "Decode unmarshal maxAlloc d True = Returns (d1, None, Some m)"
    "rdata (dr d1) = concat (map (\<lambda>m. frame (enc m)) ms) @ rest"
    using Decode_frame [of d enc m "concat (map (\<lambda>m. frame (enc m)) ms) @ rest" maxAlloc unmarshal] Cons.prems
    by auto
  from Cons.IH [OF d1(2)] Cons.prems(2) d1(1) show ?case by auto
qed simp


section \<open>Truncated and oversized frames\<close>

lemma ReadUvarint_loop_truncated:
  "i \<le> 9 \<Longrightarrow> unat x < 2 ^ (64 - 7 * i) \<Longrightarrow> rdata r = take k (uvarint x) \<Longrightarrow>
   k < length (uvarint x) \<Longrightarrow> rend r = EOF \<Longrightarrow>
   \<exists>v r'. ReadUvarint_loop i x0 s r =
     ((v, Some (if i = 0 \<and> k = 0 then EOF else ErrUnexpectedEOF)), r')"
proof (induction x arbitrary: i x0 s r k rule: uvarint.induct)
  case (1 x)
  show ?case
  proof (cases k)
    case 0
    then show ?thesis using "1.prems"
      by (subst ReadUvarint_loop.simps) (simp add: ReadByte_def MaxVarintLen64_def)
  next
    case (Suc k')
    have ge: "128 \<le> x" using "1.prems"(4) Suc by (subst (asm) uvarint.simps) (auto split: if_splits)
    then have u: "uvarint x = (ucast x OR 128) # uvarint (drop_bit 7 x)"
      by (subst uvarint.simps) simp
    have i: "i < 9"
      using ge "1.prems"(1,2) by (cases "i = 9") (auto simp: word_le_nat_alt)
    then have "64 - 7 * i = 7 + (64 - 7 * Suc i)" by simp
    with "1.prems"(2) have lt: "unat (drop_bit 7 x) < 2 ^ (64 - 7 * Suc i)"
      by (simp only: unat_drop_bit_7 power_add) (simp add: less_mult_imp_div_less mult.commute)
    have r: "rdata r = (ucast x OR 128) # take k' (uvarint (drop_bit 7 x))"
      using "1.prems"(3) Suc u by simp
    have "\<exists>v r'. ReadUvarint_loop (Suc i) (x0 OR push_bit s (take_bit 7 x)) (s + 7)
        (r\<lparr>rdata := take k' (uvarint (drop_bit 7 x))\<rparr>) = ((v, Some ErrUnexpectedEOF), r')"
      using "1.IH" [OF ge _ lt, of "r\<lparr>rdata := take k' (uvarint (drop_bit 7 x))\<rparr>" k']
        i "1.prems"(4,5) u Suc by simp
    with i low_byte_more [of x] r Suc show ?thesis
      by (subst ReadUvarint_loop.simps)
        (simp add: ReadByte_def MaxVarintLen64_def not_less [symmetric])
  qed
qed

lemma ReadUvarint_truncated:
  assumes "rdata r = take k (uvarint x)" "k < length (uvarint x)" "rend r = EOF"
  shows "\<exists>v r'. ReadUvarint r = ((v, Some (if k = 0 then EOF else ErrUnexpectedEOF)), r')"
  using ReadUvarint_loop_truncated [of 0 x r k 0 0] assms unsigned_less [of x, where ?'a = nat]
  by (simp add: ReadUvarint_def)

lemma io_ReadFull_short:
  assumes "rdata r = take j data" "j < length data" "len b = length data" "rend r = EOF"
  shows "\<exists>b' r'. io_ReadFull r b = (b', Some (if j = 0 then EOF else ErrUnexpectedEOF), r')"
  using assms by (auto simp: io_ReadFull_def Let_def)

lemma sint_neg_iff: "sint (x :: u64) < 0 \<longleftrightarrow> 2 ^ 63 \<le> unat x"
proof -
  have "bit x 63 \<longleftrightarrow> bit (unat x) 63" by (simp add: bit_unsigned_iff)
  also have "\<dots> \<longleftrightarrow> odd (unat x div 2 ^ 63)" by (simp only: bit_iff_odd)
  also have "\<dots> \<longleftrightarrow> 2 ^ 63 \<le> unat x"
  proof -
    have "unat x div 2 ^ 63 < 2"
      using unsigned_less [of x, where ?'a = nat] by (simp add: less_mult_imp_div_less)
    then have "odd (unat x div 2 ^ 63) \<longleftrightarrow> unat x div 2 ^ 63 \<noteq> 0" by (auto simp: less_2_cases_iff)
    then show ?thesis by (simp add: div_eq_0_iff not_less)
  qed
  finally show ?thesis
    by (simp add: bit_last_iff [symmetric])
qed

section \<open>Properties\<close>

text \<open>
  C9. Decoding is the inverse of encoding, message by message: when a list of messages was
  encoded without an error to a writer that keeps the contract of \<^verbatim>\<open>io.Writer\<close>, the decoder
  that reads what was written returns exactly those messages in order, with no error and
  no panic, and leaves the rest of the stream unread.
\<close>

theorem Encode_all_Decode_all:
  assumes "writer_ok wr out" "out w = []"
    and "\<forall>m \<in> set ms. marshal [] m = (enc m, None) \<and> unmarshal (enc m) = Inr m"
    and "\<forall>m \<in> set ms. length (enc m) < 2 ^ 63 \<and> length (enc m) \<le> maxAlloc"
    and "Encode_all marshal wr (NewEncoder w) ms = (e', None)"
  shows "\<exists>d'. Decode_all unmarshal maxAlloc (NewDecoder \<lparr>rdata = out (ew e') @ rest, rend = er\<rparr>) (length ms)
    = Returns (d', None, ms) \<and> rdata (dr d') = rest"
proof -
  have "out (ew e') = concat (map (\<lambda>m. frame (enc m)) ms)"
    using Encode_all_frames [OF assms(1) _ _ _ assms(5), of enc] assms(2,3)
    by (simp add: NewEncoder_def)
  then show ?thesis
    using Decode_all_frames [of ms enc maxAlloc unmarshal] assms(3,4) by (simp add: NewDecoder_def)
qed

theorem Encode_all_Decode_all_witness:
  "\<exists>e'. Encode_all demo_marshal demo_write (NewEncoder []) [[1, 2], [], [7, 8]] = (e', None) \<and>
    (\<exists>d'. Decode_all Inr 4096 (NewDecoder \<lparr>rdata = ew e' @ [9], rend = EOF\<rparr>) 3
      = Returns (d', None, [[1, 2], [], [7, 8]]) \<and> rdata (dr d') = [9])"
proof -
  obtain e' where e': "Encode_all demo_marshal demo_write (NewEncoder []) [[1, 2], [], [7, 8]] = (e', None)"
    by (simp add: Encode_def demo_marshal_def demo_write_def writeFrame_def NewEncoder_def Let_def
        PutUvarint.simps MaxVarintLen64_def)
  have w: "writer_ok demo_write (\<lambda>w. w)" by (simp add: writer_ok_def demo_write_def)
  show ?thesis
    using e' Encode_all_Decode_all [OF w, of "[]" "[[1, 2], [], [7, 8]]" demo_marshal "\<lambda>m. m" Inr 4096 e']
    by (simp add: demo_marshal_def numeral_3_eq_3 del: Encode_all.simps Decode_all.simps)
qed

text \<open>
  A frame that is cut off at any point before its end is never taken for a message: the
  reader gets an error. The error is \<^verbatim>\<open>io.ErrUnexpectedEOF\<close>, except that a stream cut
  off before the first byte or exactly between the length and the data reports a plain
  \<^verbatim>\<open>io.EOF\<close>.
\<close>

lemma readFull_truncated:
  assumes "k < length (frame data)" "length data < 2 ^ 63" "length data \<le> maxAlloc"
  shows "\<exists>b r'. readFull maxAlloc \<lparr>rdata = take k (frame data), rend = EOF\<rparr> buf =
    Returns (b, Some (if k = 0 \<or> k = length (uvarint (of_nat (length data))) then EOF
                      else ErrUnexpectedEOF), r')"
proof (cases "k < length (uvarint (of_nat (length data)))")
  case True
  then show ?thesis
    using ReadUvarint_truncated [of "\<lparr>rdata = take k (frame data), rend = EOF\<rparr>" k "of_nat (length data)"]
    by (auto simp: readFull_def frame_def)
next
  case False
  let ?u = "uvarint (of_nat (length data))" and ?r = "\<lparr>rdata = take k (frame data), rend = EOF\<rparr>"
  let ?j = "k - length ?u" and ?r' = "\<lparr>rdata = take (k - length ?u) data, rend = EOF\<rparr>"
  have v: "ReadUvarint ?r = ((of_nat (length data), None), ?r')"
    using ReadUvarint_uvarint [of ?r "of_nat (length data)" "take ?j data"] False
    by (simp add: frame_def)
  have j: "?j < length data" using assms(1) False by (simp add: frame_def)
  have u: "0 < length ?u" by (subst uvarint.simps) simp
  then have k: "k = 0 \<or> k = length ?u \<longleftrightarrow> ?j = 0" using False by auto
  show ?thesis
    using io_ReadFull_short [of ?r' ?j data] j assms(2,3)
    unfolding k by (simp add: readFull_def v sint_small Let_def)
qed

theorem readFull_truncated_witness:
  "\<exists>b r'. readFull 4096 \<lparr>rdata = take 1 (frame [5, 6]), rend = EOF\<rparr> \<lparr>arr = [], len = 0\<rparr> =
    Returns (b, Some EOF, r')"
  using readFull_truncated [of 1 "[5, 6]" 4096 "\<lparr>arr = [], len = 0\<rparr>"]
  by (simp add: frame_def uvarint.simps)

text \<open>
  C37. A peer that announces a length of \<open>2 ^ 63\<close> bytes or more crashes the reader: the length
  becomes a negative \<^verbatim>\<open>int\<close>, passes the capacity test and the reslice panics, whatever
  the buffer and the rest of the stream.
\<close>

theorem readFull_negative_size_panics:
  assumes "2 ^ 63 \<le> unat x"
  shows "readFull maxAlloc \<lparr>rdata = uvarint x @ rest, rend = er\<rparr> buf =
    Panics ''slice bounds out of range''"
proof -
  have "sint x < 0" using assms sint_neg_iff by blast
  then show ?thesis
    using ReadUvarint_uvarint [of "\<lparr>rdata = uvarint x @ rest, rend = er\<rparr>" x rest]
    by (simp add: readFull_def)
qed

theorem readFull_negative_size_panics_witness:
  "readFull 4096 \<lparr>rdata = uvarint 9223372036854775808 @ [], rend = EOF\<rparr> \<lparr>arr = [], len = 0\<rparr> =
    Panics ''slice bounds out of range''"
  by (rule readFull_negative_size_panics) simp

end
