(* ===== verification/Spec2Isabelle.thy ===== *)
theory Spec2Isabelle
  imports RpcCall ClientSystem ServerSystem Watcher LifeCycle Dencoder
begin

text \<open>
  A verification development of \<^verbatim>\<open>byterpc\<close>, an RPC library in Go (\<^verbatim>\<open>src/*.go\<close>).

  \<^bold>\<open>The program.\<close> A server (\<^verbatim>\<open>server.go\<close>, \<^verbatim>\<open>service.go\<close>) publishes the methods of Go values,
  accepts connections, reads requests through a codec, calls the method in a goroutine of its
  own and writes the response. A client (\<^verbatim>\<open>client.go\<close>) numbers its calls, keeps them in a table
  while they wait and completes them in one receiving goroutine. The codecs (\<^verbatim>\<open>codec.go\<close>) are
  JSON (\<^verbatim>\<open>json_codec.go\<close>) and gob (\<^verbatim>\<open>gob_codec.go\<close>); \<^verbatim>\<open>dencoder.go\<close> frames protobuf messages.
  Plugins (\<^verbatim>\<open>plugin.go\<close>) hook into both sides. For discovery a server registers its endpoints
  (\<^verbatim>\<open>registry*.go\<close>); on the other side a resolver (\<^verbatim>\<open>resolver_*.go\<close>) makes a watcher
  (\<^verbatim>\<open>watcher.go\<close>, \<^verbatim>\<open>naming.go\<close>) that feeds a balancer (\<^verbatim>\<open>balancer.go\<close>) with addresses, of which
  a selector (\<^verbatim>\<open>selector*.go\<close>) picks one.

  \<^bold>\<open>Conventions.\<close> A Go string is a \<^typ>\<open>string\<close> of bytes; \<^verbatim>\<open>uint64\<close> is a 64-bit word and wraps; an
  \<^verbatim>\<open>int\<close> is an \<^typ>\<open>int\<close> where only its sign and order matter, and its conversion from
  \<^verbatim>\<open>uint64\<close> is signed; a map is a HOL map and the order in which it is ranged over is an
  argument, restricted by \<^const>\<open>range_order\<close> where a result depends on it. An error is an option
  of \<open>go_error\<close>; an operation that may panic or wait for ever has the type \<open>outcome\<close>
  (\<open>Returns\<close>, \<open>Panics\<close>, \<open>Blocks\<close>). Values of the RPC methods' own types are of type \<open>'v\<close>, the
  state of a codec of type \<open>'c\<close> or \<open>'s\<close>, the world of the plugins of type \<open>'w\<close>. A pointer that
  the code shares (call, channel, pooled header) is an address in a heap of the owning record.

  \<^bold>\<open>The theories.\<close>
  \<^item> \<open>Prelude\<close>, \<open>GoStd\<close>: shared types, outcomes, map order; errors, \<^verbatim>\<open>strings\<close>, \<^verbatim>\<open>strconv\<close>, UTF-8.
  \<^item> \<open>Utils\<close> (\<^verbatim>\<open>utils.go\<close>), \<open>Config\<close> (\<^verbatim>\<open>config.go\<close>), \<open>Messages\<close> (\<^verbatim>\<open>request.go\<close>,
    \<^verbatim>\<open>response.go\<close>), \<open>LifeCycle\<close> (\<^verbatim>\<open>lifecycle.go\<close>): the small components. The path of an invoke
    point equals its reference definition on every string; stop callbacks run once.
  \<^item> \<open>Dencoder\<close> (\<^verbatim>\<open>dencoder.go\<close>): varints and frames at byte level. Frames round-trip through
    every encoder and decoder buffer; a length of \<open>2 ^ 63\<close> or more panics.
  \<^item> \<open>Json\<close>, \<open>JsonCodec\<close> (\<^verbatim>\<open>json_codec.go\<close>) and \<open>GobCodec\<close> (\<^verbatim>\<open>gob_codec.go\<close>, with \<^verbatim>\<open>NewClient\<close>
    and \<^verbatim>\<open>Connect\<close>): the codecs on streams of values. Calls round-trip; the failures of either
    format (a reply that is \<^verbatim>\<open>null\<close>, an argument that cannot be encoded) are stated too.
  \<^item> \<open>PendingTable\<close>: the interface of a table of entries under sequence numbers, a locale
    interpreted by the client's calls and by the JSON server codec's request ids.
  \<^item> \<open>Services\<close> (\<^verbatim>\<open>service.go\<close>), \<open>Plugins\<close> (\<^verbatim>\<open>plugin.go\<close>): publication of methods; the managers,
    with one locale for the ten hooks.
  \<^item> \<open>RpcClient\<close>, \<open>ClientJson\<close>, \<open>ClientSystem\<close> (\<^verbatim>\<open>client.go\<close>): the operations, cut where the code
    gives up a mutex; the receive loop, whose termination is proved once for every codec that
    uses up input (locale \<open>client_codec\<close>) and holds for both codecs; and a step relation that
    interleaves any number of callers, the receiver and \<^verbatim>\<open>Close\<close>, with the codec arbitrary.
  \<^item> \<open>Pools\<close>, \<open>RpcServer\<close>, \<open>ServerSystem\<close> (\<^verbatim>\<open>server.go\<close>): the free lists of headers (locale
    \<open>free_list\<close>), registration, dispatch, responses; and a step relation that interleaves
    connections and method calls over the shared pools. What a connection was sent is read
    from a log of its codec's \<^verbatim>\<open>WriteResponse\<close> calls (\<^const>\<open>logged\<close>): when a connection has been
    served, it holds one response for each request, with its number and method; and no two
    jobs ever share a header.
  \<^item> \<open>RpcCall\<close>: client and server together. The locale \<open>codec_pair\<close> says what each side writes
    and the other reads; a call from \<^verbatim>\<open>Call\<close> to its completion is proved there and holds for
    both codecs. The locale \<open>server_codec\<close> gives the termination of \<^verbatim>\<open>serveCodec\<close>.
  \<^item> \<open>Selectors\<close> (\<^verbatim>\<open>selector*.go\<close>), \<open>Balancer\<close> (\<^verbatim>\<open>balancer.go\<close>): the selectors, with the locale
    \<open>selector\<close> of what a balancer relies on, and the balancer with its mutex and channel.
  \<^item> \<open>Registry\<close> (\<^verbatim>\<open>registry*.go\<close>): the registries in memory and on a store, and the registration
    plugins. The locale \<open>service_registry\<close> is the abstract map from paths to endpoints; both
    kinds refine it over every sequence of calls, the one on a store for paths that are leaves.
  \<^item> \<open>Watcher\<close> (\<^verbatim>\<open>watcher.go\<close>, \<^verbatim>\<open>naming.go\<close>, \<^verbatim>\<open>resolver_*.go\<close>): watcher and resolvers, and a step
    relation of the store, \<^verbatim>\<open>Next\<close> and \<^verbatim>\<open>Close\<close>.
  \<^item> This theory: discovery from registration to the address that the balancer hands out.

  \<^bold>\<open>Bounds and fuel.\<close> The loops of \<^verbatim>\<open>receive\<close> and \<^verbatim>\<open>serveCodec\<close> carry fuel. The codecs' input is a
  finite list of values or read errors, every header read without an error uses at least one,
  so one unit more than the length of the input is enough; the termination theorems say so.
  The scan of the round-robin selector is a partial function, since it can run for ever. The
  properties of concurrent clients hold for fewer than \<open>2 ^ 64\<close> registered calls (\<open>nreg\<close>), when
  sequence numbers do not repeat. In \<^verbatim>\<open>serveCodec\<close> of theory \<open>RpcCall\<close> a method call runs at once,
  before the next request is read; \<open>ServerSystem\<close> has every other order.

  \<^bold>\<open>Parameters.\<close> Code outside the repository is an argument: the JSON, gob and protobuf forms of
  the methods' own values, the reflective method call, the MD5 digest, random numbers, the
  network listener, and the store library libkv. Of a store that can be reached \<^const>\<open>store_laws\<close>
  assumes what its operations do on leaf keys, keys that are no directory and below no value:
  a put may make directories above its key, and nothing is assumed of a put on a directory.
  \<^const>\<open>list_laws\<close> is the listing of a directory on etcd and ZooKeeper; only discovery uses it. The
  laws are instantiated by \<^const>\<open>tree_store\<close>, which makes directories and refuses values on them.

  \<^bold>\<open>Not modelled.\<close> \<^verbatim>\<open>monitor.go\<close> (two empty structs) and \<^verbatim>\<open>discovery.go\<close> (an empty interface) hold
  no code; \<^verbatim>\<open>utils_test.go\<close> is a test; log messages have no effect on the state; the parts of
  \<^verbatim>\<open>balancer.go\<close> and \<^verbatim>\<open>selector.go\<close> inside comments are not code. JSON and gob are modelled at the
  level of values, not of bytes, and the timing of contexts and tickers is left to the order
  of steps. Nil pointers, on which gob's \<^verbatim>\<open>Encode\<close> panics, are not among the values of a call, and
  callbacks of the life cycle do not call the controller they are registered with.
\<close>

section \<open>Discovery\<close>

text \<open>
  How a client finds a server: the server registers the endpoint of a service, the resolver
  turns the invoke point of a call into a watched directory of the store, the watcher turns
  the store's pairs into updates, the balancer hands out their addresses.
\<close>

lemma endpointOf_path:
  assumes "ln server = Some addr" "CHR '':'' \<notin> set (server_PSM server)"
    and "CHR '':'' \<notin> set (svc_name s)" "CHR ''.'' \<notin> set (svc_name s)" "CHR '':'' \<notin> set m"
  shows "\<exists>p ep. TransformInvokePointToPath (server_PSM server @ '':'' @ svc_name s @ ''.'' @ m) = Inr p
    \<and> endpointOf server s = Returns ep \<and> Path ep = p @ ''/'' @ addr \<and> MetaData ep = None
    \<and> p = ''/'' @ server_PSM server @ ''/'' @ svc_name s"
  using assms
  by (simp add: TransformInvokePointToPath_def strings_Split_append strings_Split_no_sep endpointOf_def
      server_PSM_def Let_def)

lemma set_extractUpdates:
  "set (extractUpdates ps) = update_of ` {rs. \<exists>v \<in> snd ` set ps. unmarshal_Endpoint v = (rs, None)}"
proof (induction ps rule: extractUpdates.induct)
  case (2 k v resp)
  then show ?case by (cases "unmarshal_Endpoint v"; cases "snd (unmarshal_Endpoint v)") auto
qed simp

text \<open>
  C22. The directory a resolver watches is the one the server's endpoint is stored in: for a
  server listening at \<^verbatim>\<open>addr\<close>, the key the watcher of \<^verbatim>\<open>PSM:Service.Method\<close> watches, with a
  slash and the address after it, is the key under which an etcd registry stores the
  service's endpoint, provided that the key can hold a value.
\<close>

theorem resolver_watches_registered_path:
  assumes "ln server = Some addr" "CHR '':'' \<notin> set (server_PSM server)"
    and "CHR '':'' \<notin> set (svc_name s)" "CHR ''.'' \<notin> set (svc_name s)" "CHR '':'' \<notin> set m"
    and "etcd_Init newStore new_kvRegistry ty config = (r, None)" "store_laws ops view norm"
    and "\<forall>st. storeEngine r = Some st \<longrightarrow>
      leaf_key view norm st (ServiceRootPath @ ''/'' @ server_PSM server @ ''/'' @ svc_name s @ ''/'' @ addr)"
    and "newClient (rc_Addrs (res_Config er)) (WrapKVConfig (res_Config er)) = Inr kvclient"
  shows "\<exists>ep w r1 st1. endpointOf server s = Returns ep
    \<and> ETCD_Resolve newClient er (server_PSM server @ '':'' @ svc_name s @ ''.'' @ m) = Inr w
    \<and> etcd_Register ops r ep = Returns (r1, None) \<and> storeEngine r1 = Some st1
    \<and> view st1 (sw_key w @ ''/'' @ addr) = Some (Value (Endpoint_Data ep))"
proof -
  let ?ip = "server_PSM server @ '':'' @ svc_name s @ ''.'' @ m"
  obtain p ep where p: "TransformInvokePointToPath ?ip = Inr p" "endpointOf server s = Returns ep"
      "Path ep = p @ ''/'' @ addr" "p = ''/'' @ server_PSM server @ ''/'' @ svc_name s"
    using endpointOf_path [OF assms(1-5)] by blast
  have w: "ETCD_Resolve newClient er ?ip = Inr (newServiceWatcher p kvclient)"
    using p(1) assms(9) by (simp add: ETCD_Resolve_def)
  obtain st where st: "storeEngine r = Some st" "servicesCache r = Some Map.empty" "rootPath r = ServiceRootPath"
    using assms(6)
    by (auto simp: etcd_Init_def kv_Init_def backend_of_def checkRegistryConfig_def Let_def split: sum.splits)
  have k: "rootPath r @ Path ep = sw_key (newServiceWatcher p kvclient) @ ''/'' @ addr"
    using p(3) st(3) by (simp add: newServiceWatcher_def)
  have leaf: "leaf_key view norm st (rootPath r @ Path ep)" using assms(8) st(1,3) p(3,4) by simp
  obtain st1 where "etcd_Register ops r ep
        = Returns (r\<lparr>servicesCache := Some [rootPath r @ Path ep \<mapsto> ep], storeEngine := Some st1\<rparr>, None)"
      "view st1 (sw_key (newServiceWatcher p kvclient) @ ''/'' @ addr) = Some (Value (Endpoint_Data ep))"
    using kv_Register_returns [OF assms(7) st(1,2) leaf] unfolding k [symmetric] etcd_Register_def by blast
  then show ?thesis using p(2) w by fastforce
qed

definition demo_service :: Service where
  "demo_service = \<lparr>svc_name = ''calc'', svc_aliasName = [], svc_receiver = demo_receiver, svc_methods = Map.empty\<rparr>"

lemma demo_sv_simps: "ln demo_sv = Some ''1.2.3.4:8888''" "server_PSM demo_sv = ''byterpc.default.basic''"
  by (simp_all add: demo_sv_def server_PSM_def DefaultConfig_def)

theorem resolver_watches_registered_path_witness:
  "\<exists>ep w r1 st1. endpointOf demo_sv demo_service = Returns ep
    \<and> ETCD_Resolve (\<lambda>_ _. Inr ()) (NewETCDResolver demo_rc) ''byterpc.default.basic:calc.Add'' = Inr w
    \<and> etcd_Register tree_store demo_kvr ep = Returns (r1, None) \<and> storeEngine r1 = Some st1
    \<and> map_of st1 (sw_key w @ ''/1.2.3.4:8888'') = Some (Value (Endpoint_Data ep))"
proof -
  have i: "etcd_Init demo_newStore new_kvRegistry ''etcd'' demo_rc = (demo_kvr, None)"
    using demo_Init by (simp add: etcd_Init_def)
  have n: "CHR '':'' \<notin> set (server_PSM demo_sv)" "CHR '':'' \<notin> set (svc_name demo_service)"
    "CHR ''.'' \<notin> set (svc_name demo_service)" "CHR '':'' \<notin> set ''Add''"
    by (simp_all add: demo_sv_simps demo_service_def)
  have l: "\<forall>st. storeEngine demo_kvr = Some st \<longrightarrow> leaf_key map_of id st (ServiceRootPath @ ''/'' @ server_PSM demo_sv
      @ ''/'' @ svc_name demo_service @ ''/'' @ ''1.2.3.4:8888'')"
    by (simp add: demo_kvr_fields leaf_key_def)
  show ?thesis
    using resolver_watches_registered_path [OF demo_sv_simps(1) n i tree_store_laws l,
        where newClient = "\<lambda>_ _. Inr ()" and er = "NewETCDResolver demo_rc" and kvclient = "()"]
    by (simp add: demo_sv_simps(2)) (simp add: demo_service_def)
qed

text \<open>
  C23. Discovery of a server on an etcd registry hands out an empty address. After the server's
  endpoint is registered, in a directory in which every other endpoint was registered the same
  way, what the store lists for the directory the resolver watches gives at least one update,
  every update has the empty address, and every address a balancer hands out after such an
  update is empty: the endpoint's address never reaches the store. The key of the endpoint
  can hold a value, and \<^verbatim>\<open>List\<close> behaves as on etcd.
\<close>

theorem discovered_address_is_empty:
  assumes "ln server = Some addr" "addr \<noteq> []" "CHR ''/'' \<notin> set addr" "CHR '':'' \<notin> set (server_PSM server)"
    and "CHR '':'' \<notin> set (svc_name s)" "CHR ''.'' \<notin> set (svc_name s)" "CHR '':'' \<notin> set m"
    and "store_laws ops view norm" "list_laws ops view" "storeEngine r = Some st" "servicesCache r \<noteq> None" "rootPath r = ServiceRootPath"
    and "leaf_key view norm st (ServiceRootPath @ ''/'' @ server_PSM server @ ''/'' @ svc_name s @ ''/'' @ addr)"
    and "\<forall>v. child_value (view st) (ServiceRootPath @ ''/'' @ server_PSM server @ ''/'' @ svc_name s) v \<longrightarrow> v = Inr JNull"
    and "newClient (rc_Addrs (res_Config er)) (WrapKVConfig (res_Config er)) = Inr kvclient"
  shows "\<exists>ep r' st' w ps. endpointOf server s = Returns ep \<and> etcd_Register ops r ep = Returns (r', None)
    \<and> ETCD_Resolve newClient er (server_PSM server @ '':'' @ svc_name s @ ''.'' @ m) = Inr w
    \<and> storeEngine r' = Some st' \<and> kv_List ops st' (sw_key w) = Inr ps
    \<and> extractUpdates ps \<noteq> [] \<and> (\<forall>u \<in> set (extractUpdates ps). u_Addr u = [])
    \<and> (\<forall>(b :: (RoundRobinSelector, 'w) balancer) ord b1 ord' rnd wait b2 a. running b \<and> range_order (first_addrs (updated_addrs (extractUpdates ps))) ord
         \<and> watchAddrUpdates rr_ops ord b (Inr (extractUpdates ps)) = Returns (b1, None)
         \<and> balancer_Get rr_ops ord' rnd b1 wait = Returns (b2, a, None) \<longrightarrow> Addr a = [])"
proof -
  let ?ip = "server_PSM server @ '':'' @ svc_name s @ ''.'' @ m"
  obtain p ep where p: "TransformInvokePointToPath ?ip = Inr p" "endpointOf server s = Returns ep"
      "Path ep = p @ ''/'' @ addr" "MetaData ep = None" "p = ''/'' @ server_PSM server @ ''/'' @ svc_name s"
    using endpointOf_path [OF assms(1,4-7)] by blast
  let ?w = "newServiceWatcher p kvclient"
  have w: "ETCD_Resolve newClient er ?ip = Inr ?w" "sw_key ?w = rootPath r @ p"
    using p(1) assms(12,15) by (simp_all add: ETCD_Resolve_def newServiceWatcher_def)
  have "\<forall>v. child_value (view st) (rootPath r @ p) v \<longrightarrow> v = Inr JNull" using assms(12,14) p(5) by simp
  moreover have "leaf_key view norm st (rootPath r @ Path ep)" using assms(12,13) p(3,5) by simp
  ultimately obtain r' st' ps where
    l: "kv_Register ops r ep = Returns (r', None)" "storeEngine r' = Some st'" "kv_List ops st' (sw_key ?w) = Inr ps"
      "{rs. \<exists>v \<in> snd ` set ps. unmarshal_Endpoint v = (rs, None)} = {zero_Endpoint}"
    using register_then_list [OF assms(8-11) p(3) assms(2,3) _ p(4)] unfolding w(2) by blast
  have us: "set (extractUpdates ps) = {update_of zero_Endpoint}" using set_extractUpdates [of ps] l(4) by simp
  then have ne: "extractUpdates ps \<noteq> []" by auto
  have e: "\<forall>u \<in> set (extractUpdates ps). u_Addr u = []" "\<forall>u \<in> set (extractUpdates ps). u_Metadata u \<noteq> NilMetaMap"
    using us by (simp_all add: update_of_def zero_Endpoint_def)
  have "Addr a = []" if b: "running b" and o: "range_order (first_addrs (updated_addrs (extractUpdates ps))) ord"
      and wa: "watchAddrUpdates rr_ops ord b (Inr (extractUpdates ps)) = Returns (b1, None)"
      and g: "balancer_Get rr_ops ord' rnd b1 wait = Returns (b2, a, None)" 
    for b b1 b2 :: "(RoundRobinSelector, 'w) balancer" and ord ord' rnd wait a
  proof -
    have "running b1" "known_addrs (rr_base (b_s b1)) = first_addrs (updated_addrs (extractUpdates ps))"
      using rr.watch_notifies [OF b e(2) o] wa unfolding rr_ops_eq by auto
    then have "a \<in> ran (first_addrs (updated_addrs (extractUpdates ps)))"
      using rr.get_known [of b1 ord' rnd wait b2 a] g unfolding rr_ops_eq by simp
    then have "a \<in> set (updated_addrs (extractUpdates ps))"
      by (auto simp: first_addrs_def ran_def dest: map_of_SomeD)
    then show ?thesis using e(1) by (auto simp: updated_addrs_def)
  qed
  then have g: "\<forall>(b :: (RoundRobinSelector, 'w) balancer) ord b1 ord' rnd wait b2 a. running b
      \<and> range_order (first_addrs (updated_addrs (extractUpdates ps))) ord
      \<and> watchAddrUpdates rr_ops ord b (Inr (extractUpdates ps)) = Returns (b1, None)
      \<and> balancer_Get rr_ops ord' rnd b1 wait = Returns (b2, a, None) \<longrightarrow> Addr a = []" by blast
  show ?thesis unfolding etcd_Register_def
    by (rule exI [of _ ep], rule exI [of _ r'], rule exI [of _ st'], rule exI [of _ ?w], rule exI [of _ ps])
      (intro conjI p(2) l(1-3) w(1) ne e(1) g)
qed

theorem discovered_address_is_empty_witness:
  "\<exists>ep r' st' w ps. endpointOf demo_sv demo_service = Returns ep
    \<and> etcd_Register tree_store demo_kvr ep = Returns (r', None)
    \<and> ETCD_Resolve (\<lambda>_ _. Inr ()) (NewETCDResolver demo_rc) ''byterpc.default.basic:calc.Add'' = Inr w
    \<and> storeEngine r' = Some st' \<and> kv_List tree_store st' (sw_key w) = Inr ps
    \<and> extractUpdates ps \<noteq> [] \<and> (\<forall>u \<in> set (extractUpdates ps). u_Addr u = [])"
proof -
  have "\<forall>v. child_value (map_of []) (ServiceRootPath @ ''/'' @ server_PSM demo_sv @ ''/'' @ svc_name demo_service) v
      \<longrightarrow> v = Inr JNull"
    by (simp add: child_value_def)
  moreover have "CHR ''/'' \<notin> set ''1.2.3.4:8888''" "CHR '':'' \<notin> set (server_PSM demo_sv)"
    "CHR '':'' \<notin> set (svc_name demo_service)" "CHR ''.'' \<notin> set (svc_name demo_service)" "CHR '':'' \<notin> set ''Add''"
    by (simp_all add: demo_sv_simps demo_service_def)
  moreover have "servicesCache demo_kvr \<noteq> None" by (simp add: demo_kvr_fields)
  moreover have "leaf_key map_of id [] (ServiceRootPath @ ''/'' @ server_PSM demo_sv @ ''/'' @ svc_name demo_service
      @ ''/'' @ ''1.2.3.4:8888'')"
    by (simp add: leaf_key_def)
  ultimately have "\<exists>ep r' st' w ps. endpointOf demo_sv demo_service = Returns ep
    \<and> etcd_Register tree_store demo_kvr ep = Returns (r', None)
    \<and> ETCD_Resolve (\<lambda>_ _. Inr ()) (NewETCDResolver demo_rc) (server_PSM demo_sv @ '':'' @ svc_name demo_service @ ''.'' @ ''Add'') = Inr w
    \<and> storeEngine r' = Some st' \<and> kv_List tree_store st' (sw_key w) = Inr ps
    \<and> extractUpdates ps \<noteq> [] \<and> (\<forall>u \<in> set (extractUpdates ps). u_Addr u = [])"
    using discovered_address_is_empty [where ops = tree_store and view = map_of and norm = id and r = demo_kvr and st = "[]"
        and server = demo_sv and s = demo_service and addr = "''1.2.3.4:8888''" and m = "''Add''"
        and newClient = "\<lambda>_ _. Inr ()" and er = "NewETCDResolver demo_rc" and kvclient = "()"]
      demo_sv_simps(1) demo_kvr_fields(1,3) tree_store_laws tree_list_laws by simp blast
  then show ?thesis by (simp add: demo_sv_simps(2)) (simp add: demo_service_def)
qed

lemma after_first_sep:
  assumes "x @ c # y = w @ c # z" "c \<notin> set x"
  shows "set z \<subseteq> set y"
proof -
  obtain us where "x = w @ us \<and> us @ c # y = c # z \<or> x @ us = w \<and> c # y = us @ c # z"
    using assms(1) by (auto simp: append_eq_append_conv2)
  then show ?thesis using assms(2) by (cases us) auto
qed

text \<open>
  A registry in memory does not find the server by an invoke point: after the endpoint of a
  server at \<^verbatim>\<open>host:port\<close> is registered in a new registry, \<^verbatim>\<open>ListServices\<close> for
  \<^verbatim>\<open>PSM:Service.Method\<close> is empty, because the invoke point itself and not its path is looked
  for in the endpoints' paths; for the path it has the endpoint.
\<close>

lemma mem_registry_misses_invoke_point:
  assumes "ln server = Some (host @ '':'' @ port)" "CHR '':'' \<notin> set host" "CHR ''.'' \<notin> set port"
    and "CHR '':'' \<notin> set (server_PSM server)" "CHR '':'' \<notin> set (svc_name s)" "CHR ''.'' \<notin> set (svc_name s)"
    and "CHR '':'' \<notin> set m"
  shows "\<exists>ep p r. endpointOf server s = Returns ep \<and> mem_Register NewMemoryRegistry ep = Returns (r, None)
    \<and> TransformInvokePointToPath (server_PSM server @ '':'' @ svc_name s @ ''.'' @ m) = Inr p
    \<and> mem_ListServices [Path ep] r (server_PSM server @ '':'' @ svc_name s @ ''.'' @ m) = []
    \<and> mem_ListServices [Path ep] r p = [ep]"
proof -
  let ?ip = "server_PSM server @ '':'' @ svc_name s @ ''.'' @ m"
  obtain p ep where p: "TransformInvokePointToPath ?ip = Inr p" "endpointOf server s = Returns ep"
      "Path ep = p @ ''/'' @ host @ '':'' @ port" "p = ''/'' @ server_PSM server @ ''/'' @ svc_name s"
    using endpointOf_path [OF assms(1,4-7)] by blast
  let ?r = "\<lparr>mem_cache = Some [Path ep \<mapsto> ep]\<rparr>"
  have r: "mem_Register NewMemoryRegistry ep = Returns (?r, None)"
    by (simp add: mem_Register_def NewMemoryRegistry_def)
  have l: "mem_ListServices [Path ep] ?r q = (if strings_Contains (Path ep) q then [ep] else [])" for q
    by (simp add: mem_ListServices_def range_values_def map_filter_def)
  have "\<not> strings_Contains (Path ep) ?ip"
  proof
    assume "strings_Contains (Path ep) ?ip"
    then obtain a b where ab: "Path ep = a @ ?ip @ b" unfolding strings_Contains_iff by blast
    have "(p @ ''/'' @ host) @ CHR '':'' # port = (a @ server_PSM server) @ CHR '':'' # svc_name s @ ''.'' @ m @ b"
      using ab p(3) by simp
    moreover have "CHR '':'' \<notin> set (p @ ''/'' @ host)" using assms(2,4,5) p(4) by simp
    ultimately have "set (svc_name s @ ''.'' @ m @ b) \<subseteq> set port" by (rule after_first_sep)
    then show False using assms(3) by simp
  qed
  moreover have "strings_Contains (Path ep) p" unfolding strings_Contains_iff p(3) by (metis append_Nil)
  ultimately show ?thesis using p(1,2) r l by (intro exI [of _ ep] exI [of _ p] exI [of _ ?r]) simp
qed

theorem mem_registry_misses_invoke_point_witness:
  "\<exists>ep r. endpointOf demo_sv demo_service = Returns ep \<and> mem_Register NewMemoryRegistry ep = Returns (r, None)
    \<and> mem_ListServices [Path ep] r ''byterpc.default.basic:calc.Add'' = []"
proof -
  have "ln demo_sv = Some (''1.2.3.4'' @ '':'' @ ''8888'')" by (simp add: demo_sv_simps)
  moreover have "CHR '':'' \<notin> set ''1.2.3.4''" "CHR ''.'' \<notin> set ''8888''" "CHR '':'' \<notin> set (server_PSM demo_sv)"
    "CHR '':'' \<notin> set (svc_name demo_service)" "CHR ''.'' \<notin> set (svc_name demo_service)" "CHR '':'' \<notin> set ''Add''"
    by (simp_all add: demo_sv_simps demo_service_def)
  ultimately have "\<exists>ep p r. endpointOf demo_sv demo_service = Returns ep \<and> mem_Register NewMemoryRegistry ep = Returns (r, None)
    \<and> TransformInvokePointToPath (server_PSM demo_sv @ '':'' @ svc_name demo_service @ ''.'' @ ''Add'') = Inr p
    \<and> mem_ListServices [Path ep] r (server_PSM demo_sv @ '':'' @ svc_name demo_service @ ''.'' @ ''Add'') = []
    \<and> mem_ListServices [Path ep] r p = [ep]"
    by (rule mem_registry_misses_invoke_point)
  then show ?thesis by (simp add: demo_sv_simps(2)) (auto simp: demo_service_def)
qed

end
